theory Spec2Isabelle
  imports Main "HOL-Library.AList"
begin

unbundle bit_operations_syntax

section \<open>The dimension classifier\<close>

text \<open>
  The module \<^verbatim>\<open>addons/xivparty/resize_textures.py\<close> rounds the sides of PNG textures up
  to powers of two. Python integers are unbounded, so they are \<^typ>\<open>int\<close> here.

  \<^verbatim>\<open>
  def next_pow2(n):
      p = 1
      while p < n:
          p *= 2
      return p
  \<close>

  The loop is the recursive function \<open>next_pow2_loop\<close> on the loop variable \<open>p\<close>. As a
  function of an arbitrary \<open>p\<close> it need not return (from \<open>p = 0\<close> and \<open>n = 1\<close> the
  doubling stays at 0), so not returning is the value \<open>None\<close>; that the loop started
  at \<open>p = 1\<close> always returns is a theorem below.
\<close>

partial_function (option) next_pow2_loop :: "int \<Rightarrow> int \<Rightarrow> int option" where
  "next_pow2_loop p n = (if p < n then next_pow2_loop (p * 2) n else Some p)"

declare next_pow2_loop.simps [code]

definition next_pow2 :: "int \<Rightarrow> int option" where
  "next_pow2 n = next_pow2_loop 1 n"

text \<open>
  \<^verbatim>\<open>
  def is_pow2(n):
      return n > 0 and (n & (n - 1)) == 0
  \<close>
  Python's \<^verbatim>\<open>&\<close> on integers is the bitwise conjunction of the infinite two's complement
  representations, which is \<open>AND\<close> on \<^typ>\<open>int\<close>.
\<close>

definition is_pow2 :: "int \<Rightarrow> bool" where
  "is_pow2 n \<longleftrightarrow> n > 0 \<and> (n AND (n - 1)) = 0"

section \<open>Files, images and the library calls\<close>

text \<open>
  The rest of the module works on the file system through \<^verbatim>\<open>os\<close>, \<^verbatim>\<open>shutil\<close>,
  \<^verbatim>\<open>pathlib\<close> and Pillow. The file system is an explicit state that every call takes and
  returns; an exception is the \<open>Inl\<close> of the result, and the state comes back with
  it, since what a call wrote before it raised stays written.

  A path is the list of its components from the root; the root itself is \<open>[]\<close>. The
  entries of the file system are stored under resolved paths. A path that the program
  builds may contain \<^verbatim>\<open>.\<close> and \<^verbatim>\<open>..\<close> components (\<open>relpath\<close> produces them); the
  operating system resolves them when it walks the path, which \<open>normpath\<close> does here.
  There are no symbolic links.
\<close>

type_synonym path = "string list"

fun normpath_from :: "path \<Rightarrow> path \<Rightarrow> path" where
  "normpath_from cur [] = cur"
| "normpath_from cur (c # cs) =
     (if c = ''.'' then normpath_from cur cs
      else if c = ''..'' then normpath_from (butlast cur) cs
      else normpath_from (cur @ [c]) cs)"

definition normpath :: "path \<Rightarrow> path" where
  "normpath p = normpath_from [] p"

definition canonical :: "path \<Rightarrow> bool" where
  "canonical p \<longleftrightarrow> ''.'' \<notin> set p \<and> ''..'' \<notin> set p"

text \<open>
  Pillow's image modes that a PNG, JPEG, BMP or GIF file opens in: \<^verbatim>\<open>1\<close>, \<^verbatim>\<open>L\<close>,
  \<^verbatim>\<open>LA\<close>, \<^verbatim>\<open>I\<close>, \<^verbatim>\<open>I;16\<close>, \<^verbatim>\<open>P\<close>, \<^verbatim>\<open>RGB\<close>, \<^verbatim>\<open>RGBA\<close>, \<^verbatim>\<open>CMYK\<close>. Each of them converts
  to \<^verbatim>\<open>RGBA\<close>.
\<close>

datatype mode = Bilevel | Grey | GreyAlpha | Int32 | Int16 | Palette | RGB | RGBA | CMYK

datatype resampling = NEAREST | BILINEAR | BICUBIC | LANCZOS

text \<open>
  Pixel data is kept as the term that says how it came about: Pillow's conversion and
  resampling are library functions about which nothing is assumed.
\<close>

datatype pixels = Raw nat | Converted mode pixels | Resampled resampling "int \<times> int" pixels

text \<open>
  \<^verbatim>\<open>Image.open\<close> reads the header only; the pixel data is loaded by the first operation
  that needs it. \<open>img_truncated\<close> says that this load will fail (a file cut short after
  its header).
\<close>

record pil_image =
  img_size :: "int \<times> int"
  img_mode :: mode
  img_data :: pixels
  img_truncated :: bool

datatype format = PNG | JPEG | BMP | GIF

text \<open>
  What a file holds: an image in some encoding, or bytes that no decoder recognises.
  The encoding is a property of the content, not of the file's name. With the content a
  file has its modification time and its permission bits; \<^verbatim>\<open>shutil.copy2\<close> copies all of
  them.
\<close>

datatype content = Encoded format pil_image | Garbage "nat list"

record file_data =
  file_content :: content
  file_mtime :: nat
  file_readable :: bool
  file_writable :: bool

text \<open>
  The trace lists, in program order, the files opened for reading and every write to the
  file system, with the paths as the program gave them.
\<close>

datatype event = Opened path | MadeDir path | Copied path path | Saved path

text \<open>
  \<open>locked\<close> lists the directories in which the process may not create an entry.
\<close>

record fs =
  files :: "(path \<times> file_data) list"
  dirs :: "path list"
  locked :: "path list"
  clock :: nat
  trace :: "event list"

datatype exn =
    FileNotFoundError path
  | IsADirectoryError path
  | NotADirectoryError path
  | FileExistsError path
  | PermissionError path
  | SameFileError path
  | UnidentifiedImageError path
  | DecompressionBombError int
  | TruncatedImageError
  | ValueError path path

definition lookup :: "fs \<Rightarrow> path \<Rightarrow> file_data option" where
  "lookup s p = map_of (files s) (normpath p)"

definition is_dir :: "fs \<Rightarrow> path \<Rightarrow> bool" where
  "is_dir s p \<longleftrightarrow> normpath p = [] \<or> normpath p \<in> set (dirs s)"


text \<open>
  A new entry can be created where the parent directory is not locked; an existing file
  can be overwritten where its own permission bits allow writing.
\<close>

definition can_create :: "fs \<Rightarrow> path \<Rightarrow> bool" where
  "can_create s p \<longleftrightarrow> butlast (normpath p) \<notin> set (locked s)"

definition can_write :: "fs \<Rightarrow> path \<Rightarrow> bool" where
  "can_write s p \<longleftrightarrow> (case lookup s p of Some g \<Rightarrow> file_writable g | None \<Rightarrow> can_create s p)"

subsection \<open>\<^verbatim>\<open>os.path\<close> and \<^verbatim>\<open>pathlib\<close>\<close>

definition dirname :: "path \<Rightarrow> path" where
  "dirname p = butlast p"

definition join :: "path \<Rightarrow> path \<Rightarrow> path" where
  "join p q = p @ q"

fun commonprefix :: "path \<Rightarrow> path \<Rightarrow> path" where
  "commonprefix (x # xs) (y # ys) = (if x = y then x # commonprefix xs ys else [])"
| "commonprefix _ _ = []"

text \<open>
  \<^verbatim>\<open>os.path.relpath(path, start)\<close> normalises both arguments; the result is one \<^verbatim>\<open>..\<close> for
  every component of \<open>start\<close> below the common prefix, then the rest of \<open>path\<close>; \<^verbatim>\<open>.\<close>
  when nothing is left.
\<close>

definition relpath :: "path \<Rightarrow> path \<Rightarrow> path" where
  "relpath p start =
     (let start_list = normpath start;
          path_list = normpath p;
          i = length (commonprefix start_list path_list);
          rel_list = replicate (length start_list - i) ''..'' @ drop i path_list
      in if rel_list = [] then [''.''] else rel_list)"

text \<open>\<^verbatim>\<open>Path.relative_to\<close> raises \<^verbatim>\<open>ValueError\<close> when the path is not below the base.\<close>

definition relative_to :: "path \<Rightarrow> path \<Rightarrow> exn + path" where
  "relative_to p base =
     (if take (length base) p = base then Inr (drop (length base) p) else Inl (ValueError p base))"

definition matches_png :: "string \<Rightarrow> bool" where
  "matches_png name \<longleftrightarrow> 4 \<le> length name \<and> drop (length name - 4) name = ''.png''"

text \<open>
  \<^verbatim>\<open>Path.rglob("*.png")\<close>: every entry strictly below the root whose name ends in
  \<^verbatim>\<open>.png\<close>, directories included, each as the root followed by the entry's path
  from there; nothing if the root is not a directory. pathlib does not specify the order
  of the walk; here it is the order of the listing.
\<close>

definition rglob_png :: "path \<Rightarrow> fs \<Rightarrow> path list" where
  "rglob_png root s =
     (let base = normpath root in
      if \<not> is_dir s root then []
      else map (\<lambda>p. root @ drop (length base) p)
             (filter (\<lambda>p. length base < length p \<and> take (length base) p = base
                          \<and> matches_png (last p))
                (map fst (files s) @ dirs s)))"

subsection \<open>Directories\<close>

text \<open>The non-empty prefixes of a path, shortest first: the directories \<^verbatim>\<open>makedirs\<close> visits.\<close>

definition ancestors :: "path \<Rightarrow> path list" where
  "ancestors p = map (\<lambda>n. take n p) [1..<Suc (length p)]"

text \<open>
  \<^verbatim>\<open>os.makedirs(p, exist_ok=True)\<close> makes the missing directories from the top down;
  those made before a failure stay. A regular file in the way gives \<^verbatim>\<open>FileExistsError\<close>
  when it is at \<open>p\<close> itself, and \<^verbatim>\<open>NotADirectoryError\<close> for the path below it otherwise.
\<close>

fun makedirs_each :: "path list \<Rightarrow> fs \<Rightarrow> (exn + unit) \<times> fs" where
  "makedirs_each [] s = (Inr (), s)"
| "makedirs_each (d # ds) s =
     (if is_dir s d then makedirs_each ds s
      else if lookup s d \<noteq> None
      then (Inl (if ds = [] then FileExistsError d else NotADirectoryError (hd ds)), s)
      else if \<not> can_create s d then (Inl (PermissionError d), s)
      else makedirs_each ds (s\<lparr>dirs := dirs s @ [normpath d], trace := trace s @ [MadeDir d]\<rparr>))"

definition os_makedirs :: "path \<Rightarrow> fs \<Rightarrow> (exn + unit) \<times> fs" where
  "os_makedirs p s = makedirs_each (ancestors p) s"


subsection \<open>\<^verbatim>\<open>shutil.copy2\<close>\<close>

text \<open>
  The destination gets the source's content and its metadata: the whole \<open>file_data\<close>
  record, modification time and permission bits included. A destination that is a
  directory receives the copy under the source's name.
\<close>

definition shutil_copy2 :: "path \<Rightarrow> path \<Rightarrow> fs \<Rightarrow> (exn + path) \<times> fs" where
  "shutil_copy2 src dst s =
     (let dst' = (if is_dir s dst then dst @ [last src] else dst) in
      case lookup s src of
        None \<Rightarrow> (Inl (if is_dir s src then IsADirectoryError src else FileNotFoundError src), s)
      | Some f \<Rightarrow>
          if normpath dst' = normpath src then (Inl (SameFileError src), s)
          else if \<not> file_readable f then (Inl (PermissionError src), s)
          else if is_dir s dst' then (Inl (IsADirectoryError dst'), s)
          else if \<not> is_dir s (dirname dst') then (Inl (FileNotFoundError dst'), s)
          else if \<not> can_write s dst' then (Inl (PermissionError dst'), s)
          else (Inr dst',
                s\<lparr>files := AList.update (normpath dst') f (files s),
                  trace := trace s @ [Copied src dst']\<rparr>))"

subsection \<open>Pillow\<close>

text \<open>
  \<^verbatim>\<open>Image.open\<close> refuses an image of more than twice \<^verbatim>\<open>Image.MAX_IMAGE_PIXELS\<close> pixels
  with \<^verbatim>\<open>DecompressionBombError\<close>; between once and twice the limit it only warns.
  Memory and disk space are taken to suffice for every image that it accepts.
\<close>

definition MAX_IMAGE_PIXELS :: int where
  "MAX_IMAGE_PIXELS = 89478485"

definition pixel_count :: "int \<times> int \<Rightarrow> int" where
  "pixel_count sz = max 1 (fst sz) * max 1 (snd sz)"

definition Image_open :: "path \<Rightarrow> fs \<Rightarrow> (exn + pil_image) \<times> fs" where
  "Image_open p s =
     (case lookup s p of
        None \<Rightarrow> (Inl (if is_dir s p then IsADirectoryError p else FileNotFoundError p), s)
      | Some f \<Rightarrow>
          if \<not> file_readable f then (Inl (PermissionError p), s)
          else
            (case file_content f of
               Garbage _ \<Rightarrow> (Inl (UnidentifiedImageError p), s\<lparr>trace := trace s @ [Opened p]\<rparr>)
             | Encoded fmt img \<Rightarrow>
                 if pixel_count (img_size img) > 2 * MAX_IMAGE_PIXELS
                 then (Inl (DecompressionBombError (pixel_count (img_size img))),
                       s\<lparr>trace := trace s @ [Opened p]\<rparr>)
                 else (Inr img, s\<lparr>trace := trace s @ [Opened p]\<rparr>)))"

definition Image_convert :: "pil_image \<Rightarrow> mode \<Rightarrow> exn + pil_image" where
  "Image_convert img m =
     (if img_truncated img then Inl TruncatedImageError
      else Inr (img\<lparr>img_mode := m, img_data := Converted m (img_data img)\<rparr>))"

definition Image_resize :: "pil_image \<Rightarrow> int \<times> int \<Rightarrow> resampling \<Rightarrow> exn + pil_image" where
  "Image_resize img sz r =
     (if img_truncated img then Inl TruncatedImageError
      else Inr (img\<lparr>img_size := sz, img_data := Resampled r sz (img_data img)\<rparr>))"

text \<open>
  \<^verbatim>\<open>Image.save(path, format)\<close> writes the file anew, stamped with the current time. A
  file that was there keeps its permission bits.
\<close>

definition saved_file :: "fs \<Rightarrow> path \<Rightarrow> format \<Rightarrow> pil_image \<Rightarrow> file_data" where
  "saved_file s p fmt img =
     \<lparr>file_content = Encoded fmt img, file_mtime = clock s,
      file_readable = (case lookup s p of Some g \<Rightarrow> file_readable g | None \<Rightarrow> True),
      file_writable = True\<rparr>"

definition Image_save :: "pil_image \<Rightarrow> path \<Rightarrow> format \<Rightarrow> fs \<Rightarrow> (exn + unit) \<times> fs" where
  "Image_save img p fmt s =
     (if is_dir s p then (Inl (IsADirectoryError p), s)
      else if \<not> is_dir s (dirname p) then (Inl (FileNotFoundError p), s)
      else if \<not> can_write s p then (Inl (PermissionError p), s)
      else (Inr (),
            s\<lparr>files := AList.update (normpath p) (saved_file s p fmt img) (files s),
              clock := Suc (clock s),
              trace := trace s @ [Saved p]\<rparr>))"

section \<open>The asset transformer\<close>

text \<open>
  \<^verbatim>\<open>
  def resize_to_pow2(img_path, backup_dir):
      img = Image.open(img_path)
      orig_width, orig_height = img.size
      if is_pow2(orig_width) and is_pow2(orig_height):
          return False, (orig_width, orig_height), (orig_width, orig_height)
      new_width = next_pow2(orig_width)
      new_height = next_pow2(orig_height)
      rel_path = os.path.relpath(img_path, start=os.path.dirname(backup_dir))
      backup_path = os.path.join(backup_dir, rel_path)
      os.makedirs(os.path.dirname(backup_path), exist_ok=True)
      shutil.copy2(img_path, backup_path)
      if img.mode != 'RGBA':
          img = img.convert('RGBA')
      new_img = img.resize((new_width, new_height), Image.Resampling.LANCZOS)
      new_img.save(img_path, 'PNG')
      return True, (orig_width, orig_height), (new_width, new_height)
  \<close>
  The two lines that compute the backup path are the function \<open>backup_path\<close>. The
  result is \<open>None\<close> only if one of the two \<open>next_pow2\<close> loops does not return.
\<close>

definition backup_path :: "path \<Rightarrow> path \<Rightarrow> path" where
  "backup_path img_path backup_dir =
     (let rel_path = relpath img_path (dirname backup_dir) in join backup_dir rel_path)"

type_synonym resized = "bool \<times> (int \<times> int) \<times> (int \<times> int)"

definition resize_to_pow2 :: "path \<Rightarrow> path \<Rightarrow> fs \<Rightarrow> ((exn + resized) \<times> fs) option" where
  "resize_to_pow2 img_path backup_dir s =
     (case Image_open img_path s of
        (Inl e, s0) \<Rightarrow> Some (Inl e, s0)
      | (Inr img, s0) \<Rightarrow>
          (case img_size img of (orig_width, orig_height) \<Rightarrow>
             if is_pow2 orig_width \<and> is_pow2 orig_height
             then Some (Inr (False, (orig_width, orig_height), (orig_width, orig_height)), s0)
             else
               (case next_pow2 orig_width of None \<Rightarrow> None | Some new_width \<Rightarrow>
                case next_pow2 orig_height of None \<Rightarrow> None | Some new_height \<Rightarrow>
                  let backup_path = backup_path img_path backup_dir in
                  (case os_makedirs (dirname backup_path) s0 of
                     (Inl e, s1) \<Rightarrow> Some (Inl e, s1)
                   | (Inr _, s1) \<Rightarrow>
                  (case shutil_copy2 img_path backup_path s1 of
                     (Inl e, s2) \<Rightarrow> Some (Inl e, s2)
                   | (Inr _, s2) \<Rightarrow>
                  (case (if img_mode img \<noteq> RGBA then Image_convert img RGBA else Inr img) of
                     Inl e \<Rightarrow> Some (Inl e, s2)
                   | Inr img' \<Rightarrow>
                  (case Image_resize img' (new_width, new_height) LANCZOS of
                     Inl e \<Rightarrow> Some (Inl e, s2)
                   | Inr new_img \<Rightarrow>
                  (case Image_save new_img img_path PNG s2 of
                     (Inl e, s3) \<Rightarrow> Some (Inl e, s3)
                   | (Inr _, s3) \<Rightarrow>
                       Some (Inr (True, (orig_width, orig_height), (new_width, new_height)),
                             s3)))))))))"

text \<open>
  The part of \<open>resize_to_pow2\<close> after the copy, under a name of its own for the proofs:
  conversion, resampling and saving, from the state \<open>s2\<close> in which the backup is
  written. \<open>resize_to_pow2_npot_steps\<close> below shows it is that part.
\<close>

definition after_copy ::
  "pil_image \<Rightarrow> int \<times> int \<Rightarrow> int \<times> int \<Rightarrow> path \<Rightarrow> fs \<Rightarrow> ((exn + resized) \<times> fs) option"
where
  "after_copy img orig new p s2 =
    (case (if img_mode img \<noteq> RGBA then Image_convert img RGBA else Inr img) of
       Inl e \<Rightarrow> Some (Inl e, s2)
     | Inr img' \<Rightarrow>
    (case Image_resize img' new LANCZOS of
       Inl e \<Rightarrow> Some (Inl e, s2)
     | Inr new_img \<Rightarrow>
    (case Image_save new_img p PNG s2 of
       (Inl e, s3) \<Rightarrow> Some (Inl e, s3)
     | (Inr _, s3) \<Rightarrow> Some (Inr (True, orig, new), s3))))"

text \<open>
  The image that the run saves: the original, converted to RGBA unless it is RGBA
  already, and resampled to the new size.
\<close>

definition resampled :: "pil_image \<Rightarrow> int \<times> int \<Rightarrow> pil_image" where
  "resampled img new =
     \<lparr>img_size = new, img_mode = RGBA,
      img_data = Resampled LANCZOS new
        (if img_mode img \<noteq> RGBA then Converted RGBA (img_data img) else img_data img),
      img_truncated = False\<rparr>"

section \<open>The batch driver\<close>

text \<open>
  \<^verbatim>\<open>str(e)\<close> for the exceptions above. The texts come from the libraries; only that every
  exception has one matters here.
\<close>

definition show_path :: "path \<Rightarrow> string" where
  "show_path p = concat (map (\<lambda>c. CHR ''/'' # c) p)"

fun str_exn :: "exn \<Rightarrow> string" where
  "str_exn (FileNotFoundError p) = ''No such file or directory: '' @ show_path p"
| "str_exn (IsADirectoryError p) = ''Is a directory: '' @ show_path p"
| "str_exn (NotADirectoryError p) = ''Not a directory: '' @ show_path p"
| "str_exn (FileExistsError p) = ''File exists: '' @ show_path p"
| "str_exn (PermissionError p) = ''Permission denied: '' @ show_path p"
| "str_exn (SameFileError p) = show_path p @ '' and the destination are the same file''"
| "str_exn (UnidentifiedImageError p) = ''cannot identify image file '' @ show_path p"
| "str_exn (DecompressionBombError n) = ''Image size exceeds limit, could be decompression bomb DOS attack.''"
| "str_exn TruncatedImageError = ''image file is truncated''"
| "str_exn (ValueError p base) = show_path p @ '' is not in the subpath of '' @ show_path base"

text \<open>
  The lines the driver prints, one constructor for each \<^verbatim>\<open>print\<close> of the source.
  Printing is taken not to fail.
\<close>

datatype line =
    AssetsNotFound path
  | Title
  | Rule
  | AssetsDirectory path
  | BackupDirectory path
  | Blank
  | Found nat
  | ResizedLine path "int \<times> int" "int \<times> int"
  | ErrorLine path string
  | SummaryHead
  | ResizedTotal nat
  | SkippedTotal nat
  | ErrorsTotal nat
  | BackedUpTo path
  | Important
  | ReloadAddon
  | NoneNeeded

record summary =
  resized_count :: nat
  skipped_count :: nat
  errors :: "(path \<times> string) list"

text \<open>
  The loop of \<^verbatim>\<open>main\<close>:
  \<^verbatim>\<open>
  for png_path in png_files:
      try:
          was_resized, orig_size, new_size = resize_to_pow2(str(png_path), str(backup_dir))
          rel_path = png_path.relative_to(assets_dir)
          if was_resized:
              print(f"[RESIZED] {rel_path}: ...")
              resized_count += 1
          else:
              skipped_count += 1
      except Exception as e:
          errors.append((png_path, str(e)))
          print(f"[ERROR]   {png_path}: {e}")
  \<close>
  The state of the loop is the counters, the file system and the lines printed so far.
\<close>

definition record_error :: "path \<Rightarrow> exn \<Rightarrow> summary \<times> line list \<Rightarrow> summary \<times> line list" where
  "record_error png_path e st =
     (case st of (sm, out) \<Rightarrow>
        (sm\<lparr>errors := errors sm @ [(png_path, str_exn e)]\<rparr>,
         out @ [ErrorLine png_path (str_exn e)]))"

fun process_files ::
  "path \<Rightarrow> path \<Rightarrow> path list \<Rightarrow> summary \<times> fs \<times> line list \<Rightarrow> (summary \<times> fs \<times> line list) option"
where
  "process_files assets_dir backup_dir [] st = Some st"
| "process_files assets_dir backup_dir (png_path # rest) (sm, s, out) =
     (case resize_to_pow2 png_path backup_dir s of
        None \<Rightarrow> None
      | Some (Inl e, s') \<Rightarrow>
          (case record_error png_path e (sm, out) of (sm', out') \<Rightarrow>
             process_files assets_dir backup_dir rest (sm', s', out'))
      | Some (Inr (was_resized, orig_size, new_size), s') \<Rightarrow>
          (case relative_to png_path assets_dir of
             Inl e \<Rightarrow>
               (case record_error png_path e (sm, out) of (sm', out') \<Rightarrow>
                  process_files assets_dir backup_dir rest (sm', s', out'))
           | Inr rel_path \<Rightarrow>
               if was_resized
               then process_files assets_dir backup_dir rest
                      (sm\<lparr>resized_count := resized_count sm + 1\<rparr>, s',
                       out @ [ResizedLine rel_path orig_size new_size])
               else process_files assets_dir backup_dir rest
                      (sm\<lparr>skipped_count := skipped_count sm + 1\<rparr>, s', out)))"



text \<open>The events a run adds to the trace.\<close>

definition new_events :: "fs \<Rightarrow> fs \<Rightarrow> event list" where
  "new_events s s' = drop (length (trace s)) (trace s')"

section \<open>What the environment must allow\<close>

text \<open>
  \<open>decodes s p f img\<close>: the path holds the readable file \<open>f\<close>, whose content is an
  encoding of \<open>img\<close> within Pillow's pixel limit. By \<open>Image_open_iff_decodes\<close> below
  these are exactly the cases in which \<^verbatim>\<open>Image.open\<close> returns \<open>img\<close>.
\<close>

definition decodes :: "fs \<Rightarrow> path \<Rightarrow> file_data \<Rightarrow> pil_image \<Rightarrow> bool" where
  "decodes s p f img \<longleftrightarrow>
     lookup s p = Some f \<and> file_readable f
     \<and> (case file_content f of Encoded fmt img' \<Rightarrow> img' = img | Garbage _ \<Rightarrow> False)
     \<and> pixel_count (img_size img) \<le> 2 * MAX_IMAGE_PIXELS"

text \<open>
  The backup of \<open>img_path\<close> can be written: every directory on the way to the backup path
  exists or can be made, and the backup path itself is another file than the image and
  can be written. The image can be saved in place: its path is a file position in an
  existing directory and it can be written.
\<close>

definition can_backup :: "path \<Rightarrow> path \<Rightarrow> fs \<Rightarrow> bool" where
  "can_backup img_path backup_dir s \<longleftrightarrow>
     (let bp = backup_path img_path backup_dir in
      (\<forall>d\<in>set (ancestors (dirname bp)). is_dir s d \<or> (lookup s d = None \<and> can_create s d))
      \<and> \<not> is_dir s bp \<and> normpath bp \<noteq> normpath img_path \<and> can_write s bp)"

definition can_save :: "path \<Rightarrow> fs \<Rightarrow> bool" where
  "can_save img_path s \<longleftrightarrow>
     \<not> is_dir s img_path \<and> is_dir s (dirname img_path) \<and> can_write s img_path"

text \<open>\<^verbatim>\<open>Image.open\<close> returns an image both of whose sides are powers of two.\<close>

definition already_pow2 :: "fs \<Rightarrow> path \<Rightarrow> bool" where
  "already_pow2 s p \<longleftrightarrow>
     (case fst (Image_open p s) of
        Inl e \<Rightarrow> False
      | Inr img \<Rightarrow> is_pow2 (fst (img_size img)) \<and> is_pow2 (snd (img_size img)))"

section \<open>An example installation\<close>

text \<open>
  The addon's folder with three assets: \<^verbatim>\<open>a.png\<close>, 377 by 21 without an alpha channel;
  \<^verbatim>\<open>c.png\<close>, bytes that are no image; \<^verbatim>\<open>ui/b.png\<close>, 256 by 256 with an alpha channel.
\<close>

definition ex_dir :: path where
  "ex_dir = [''xivparty'']"

definition ex_assets :: path where
  "ex_assets = [''xivparty'', ''assets'']"

definition ex_backup :: path where
  "ex_backup = [''xivparty'', ''backup_npot'']"

definition ex_a :: path where
  "ex_a = [''xivparty'', ''assets'', ''a.png'']"

definition ex_b :: path where
  "ex_b = [''xivparty'', ''assets'', ''ui'', ''b.png'']"

definition ex_c :: path where
  "ex_c = [''xivparty'', ''assets'', ''c.png'']"

definition ex_a_backup :: path where
  "ex_a_backup = [''xivparty'', ''backup_npot'', ''assets'', ''a.png'']"

definition ex_a_img :: pil_image where
  "ex_a_img = \<lparr>img_size = (377, 21), img_mode = RGB, img_data = Raw 0, img_truncated = False\<rparr>"

definition ex_b_img :: pil_image where
  "ex_b_img = \<lparr>img_size = (256, 256), img_mode = RGBA, img_data = Raw 1, img_truncated = False\<rparr>"

definition ex_a_file :: file_data where
  "ex_a_file = \<lparr>file_content = Encoded PNG ex_a_img, file_mtime = 5,
                file_readable = True, file_writable = True\<rparr>"

definition ex_b_file :: file_data where
  "ex_b_file = \<lparr>file_content = Encoded PNG ex_b_img, file_mtime = 7,
                file_readable = True, file_writable = True\<rparr>"

definition ex_c_file :: file_data where
  "ex_c_file = \<lparr>file_content = Garbage [1, 2, 3], file_mtime = 6,
                file_readable = True, file_writable = True\<rparr>"

definition ex_fs :: fs where
  "ex_fs = \<lparr>files = [(ex_a, ex_a_file), (ex_c, ex_c_file), (ex_b, ex_b_file)],
            dirs = [ex_dir, ex_assets, ex_assets @ [''ui'']],
            locked = [], clock = 9, trace = []\<rparr>"

text \<open>The example installation after \<^verbatim>\<open>a.png\<close> alone has been resized.\<close>

definition ex_a_resized :: pil_image where
  "ex_a_resized =
     \<lparr>img_size = (512, 32), img_mode = RGBA,
      img_data = Resampled LANCZOS (512, 32) (Converted RGBA (Raw 0)), img_truncated = False\<rparr>"

definition ex_a_saved :: file_data where
  "ex_a_saved = \<lparr>file_content = Encoded PNG ex_a_resized, file_mtime = 9,
                 file_readable = True, file_writable = True\<rparr>"

definition ex_after_a :: fs where
  "ex_after_a =
     \<lparr>files = [(ex_a, ex_a_saved), (ex_c, ex_c_file), (ex_b, ex_b_file), (ex_a_backup, ex_a_file)],
      dirs = [ex_dir, ex_assets, ex_assets @ [''ui''], ex_backup, ex_backup @ [''assets'']],
      locked = [], clock = 10,
      trace = [Opened ex_a, MadeDir ex_backup, MadeDir (ex_backup @ [''assets'']),
               Copied ex_a ex_a_backup, Saved ex_a]\<rparr>"

definition ex_init :: summary where
  "ex_init = \<lparr>resized_count = 0, skipped_count = 0, errors = []\<rparr>"



definition ex_locked :: fs where
  "ex_locked = ex_fs\<lparr>locked := [ex_dir]\<rparr>"



definition ex_huge :: path where
  "ex_huge = [''xivparty'', ''assets'', ''huge.png'']"

definition ex_huge_img :: pil_image where
  "ex_huge_img =
     \<lparr>img_size = (16384, 16384), img_mode = RGBA, img_data = Raw 2, img_truncated = False\<rparr>"

definition ex_huge_file :: file_data where
  "ex_huge_file = \<lparr>file_content = Encoded PNG ex_huge_img, file_mtime = 3,
                   file_readable = True, file_writable = True\<rparr>"

definition ex_huge_fs :: fs where
  "ex_huge_fs = \<lparr>files = [(ex_huge, ex_huge_file)], dirs = [ex_dir, ex_assets],
                 locked = [], clock = 9, trace = []\<rparr>"

section \<open>The states a run is expected to leave\<close>

text \<open>
  Written down independently of \<open>resize_to_pow2\<close>, to state what it leaves behind. The
  directories that are missing on the way to the backup path; the file system once the
  file \<open>f\<close> at \<open>p\<close> has been opened and copied to the backup path; and the file system
  once it has, after that, been overwritten with its image resampled to the size \<open>new\<close>.
\<close>

definition made_dirs :: "fs \<Rightarrow> path \<Rightarrow> path \<Rightarrow> path list" where
  "made_dirs s p b = filter (\<lambda>d. \<not> is_dir s d) (ancestors (dirname (backup_path p b)))"

definition state_after_backup :: "fs \<Rightarrow> path \<Rightarrow> path \<Rightarrow> file_data \<Rightarrow> fs" where
  "state_after_backup s p b f =
     s\<lparr>files := AList.update (backup_path p b) f (files s),
       dirs := dirs s @ made_dirs s p b,
       trace := trace s @ Opened p # map MadeDir (made_dirs s p b) @ [Copied p (backup_path p b)]\<rparr>"

definition state_after_resize ::
  "fs \<Rightarrow> path \<Rightarrow> path \<Rightarrow> file_data \<Rightarrow> pil_image \<Rightarrow> int \<times> int \<Rightarrow> fs"
where
  "state_after_resize s p b f img new =
     s\<lparr>files := AList.update (normpath p)
                 \<lparr>file_content = Encoded PNG (resampled img new), file_mtime = clock s,
                  file_readable = file_readable f, file_writable = True\<rparr>
                 (AList.update (backup_path p b) f (files s)),
       dirs := dirs s @ made_dirs s p b,
       clock := Suc (clock s),
       trace := trace s @ Opened p # map MadeDir (made_dirs s p b)
                  @ [Copied p (backup_path p b), Saved p]\<rparr>"

section \<open>Powers of two, bitwise\<close>

lemma and_pred_double: "(k * 2) AND (k * 2 - 1) = 2 * (k AND (k - 1))" for k :: int
proof -
  have "(k * 2 - 1) div 2 = k - 1" by presburger
  then show ?thesis by (subst and_int_rec) simp
qed

lemma and_pred_odd: "(1 + k * 2) AND (k * 2) = k * 2" for k :: int
  by (subst and_int_rec) simp

lemma and_pred_power: "(2::int) ^ k AND (2 ^ k - 1) = 0"
proof (induction k)
  case 0
  show ?case by simp
next
  case (Suc k)
  have "(2::int) ^ Suc k = 2 ^ k * 2" by simp
  then have "(2::int) ^ Suc k AND (2 ^ Suc k - 1) = 2 * (2 ^ k AND (2 ^ k - 1))"
    by (simp only: and_pred_double)
  with Suc show ?case by simp
qed

lemma and_pred_zero_power:
  fixes n :: int
  shows "0 < n \<Longrightarrow> n AND (n - 1) = 0 \<Longrightarrow> \<exists>k. n = 2 ^ k"
proof (induction n rule: int_bit_induct)
  case zero
  then show ?case by simp
next
  case minus
  then show ?case by simp
next
  case (even k)
  from even.prems have "0 < k" by simp
  moreover from even.prems have "k AND (k - 1) = 0" by (simp add: and_pred_double)
  ultimately obtain j where "k = 2 ^ j" using even.IH by blast
  then have "k * 2 = 2 ^ Suc j" by simp
  then show ?case by blast
next
  case (odd k)
  from odd.prems have "k = 0" by (simp add: and_pred_odd)
  then have "1 + k * 2 = 2 ^ 0" by simp
  then show ?case by blast
qed

lemma is_pow2_iff_power: "is_pow2 n \<longleftrightarrow> (\<exists>k. n = 2 ^ k)"
proof
  assume "is_pow2 n"
  then show "\<exists>k. n = 2 ^ k" by (simp add: is_pow2_def and_pred_zero_power)
next
  assume "\<exists>k. n = 2 ^ k"
  then obtain k where "n = 2 ^ k" ..
  then show "is_pow2 n" by (simp add: is_pow2_def and_pred_power)
qed

lemma bits_of_power: "{i. bit ((2::int) ^ k) i} = {k}"
  by (auto simp: bit_exp_iff)

lemma power_of_single_bit: "{i. bit (n::int) i} = {k} \<Longrightarrow> n = 2 ^ k"
proof (rule bit_eqI)
  fix i
  assume "{i. bit n i} = {k}"
  then have "bit n i \<longleftrightarrow> i = k" by blast
  then show "bit n i \<longleftrightarrow> bit ((2::int) ^ k) i" by (auto simp: bit_exp_iff)
qed

lemma one_bit_iff_power: "card {i. bit (n::int) i} = 1 \<longleftrightarrow> (\<exists>k. n = 2 ^ k)"
proof
  assume "card {i. bit n i} = 1"
  then obtain k where "{i. bit n i} = {k}" by (auto simp: card_1_singleton_iff)
  then show "\<exists>k. n = 2 ^ k" using power_of_single_bit by blast
next
  assume "\<exists>k. n = 2 ^ k"
  then show "card {i. bit n i} = 1" by (auto simp: bits_of_power)
qed

section \<open>The doubling loop\<close>

text \<open>
  From a positive \<open>p\<close> the loop returns \<open>p\<close> doubled \<open>i\<close> times, where \<open>i\<close> is the first
  number of doublings that reaches \<open>n\<close>.
\<close>

lemma next_pow2_loop_first:
  "0 < p \<Longrightarrow> \<exists>i. next_pow2_loop p n = Some (p * 2 ^ i) \<and> n \<le> p * 2 ^ i
     \<and> (i = 0 \<or> p * 2 ^ (i - 1) < n)"
proof (induction "nat (n - p)" arbitrary: p rule: less_induct)
  case less
  show ?case
  proof (cases "p < n")
    case False
    then have "next_pow2_loop p n = Some (p * 2 ^ 0)"
      by (subst next_pow2_loop.simps) simp
    moreover from False have "n \<le> p * 2 ^ 0" by simp
    ultimately show ?thesis by blast
  next
    case True
    with less.prems have "nat (n - p * 2) < nat (n - p)" and "0 < p * 2" by simp_all
    from less.hyps [OF this] obtain i where
      res: "next_pow2_loop (p * 2) n = Some (p * 2 * 2 ^ i)" and
      ge: "n \<le> p * 2 * 2 ^ i" and
      first: "i = 0 \<or> p * 2 * 2 ^ (i - 1) < n"
      by blast
    from True res have "next_pow2_loop p n = Some (p * 2 ^ Suc i)"
      by (subst next_pow2_loop.simps) (simp add: mult.assoc)
    moreover from ge have "n \<le> p * 2 ^ Suc i" by (simp add: mult.assoc)
    moreover have "p * 2 ^ (Suc i - 1) < n"
    proof (cases i)
      case 0
      with True show ?thesis by simp
    next
      case (Suc j)
      with first show ?thesis by (simp add: mult.assoc)
    qed
    ultimately show ?thesis by blast
  qed
qed

lemma next_pow2_first:
  "\<exists>i. next_pow2 n = Some (2 ^ i) \<and> n \<le> 2 ^ i \<and> (i = 0 \<or> 2 ^ (i - 1) < n)"
  using next_pow2_loop_first [of 1 n] by (simp add: next_pow2_def)

lemma next_pow2_total: "\<exists>r. next_pow2 n = Some r"
  using next_pow2_first [of n] by blast

section \<open>Claims about the classifier\<close>

text \<open>
  C1. For every positive integer \<open>n\<close>, \<open>next_pow2 n\<close> returns, and what it returns is the
  smallest power of two that is at least \<open>n\<close>: the result satisfies \<open>is_pow2\<close>, it is
  at least \<open>n\<close>, every power of two that is at least \<open>n\<close> is at least the result (so none
  lies between \<open>n\<close> and the result), and for \<open>n\<close> a power of two the result is \<open>n\<close>.
\<close>

theorem next_pow2_smallest:
  "0 < n \<Longrightarrow>
     \<exists>r. next_pow2 n = Some r \<and> is_pow2 r \<and> n \<le> r
       \<and> (\<forall>m. is_pow2 m \<and> n \<le> m \<longrightarrow> r \<le> m)
       \<and> (is_pow2 n \<longrightarrow> r = n)"
proof -
  assume pos: "0 < n"
  obtain i where res: "next_pow2 n = Some (2 ^ i)" and ge: "n \<le> 2 ^ i"
    and first: "i = 0 \<or> 2 ^ (i - 1) < n"
    using next_pow2_first [of n] by blast
  have pow: "is_pow2 (2 ^ i)" by (auto simp: is_pow2_iff_power)
  have least: "2 ^ i \<le> m" if "is_pow2 m" and "n \<le> m" for m
  proof -
    from that(1) obtain j where m: "m = 2 ^ j" by (auto simp: is_pow2_iff_power)
    show ?thesis
    proof (cases i)
      case 0
      with m show ?thesis by simp
    next
      case (Suc i')
      with first have "(2::int) ^ i' < n" by simp
      with that(2) m have "(2::int) ^ i' < 2 ^ j" by linarith
      then have "i' < j" by simp
      with Suc have "i \<le> j" by simp
      then have "(2::int) ^ i \<le> 2 ^ j" by simp
      with m show ?thesis by simp
    qed
  qed
  have same: "2 ^ i = n" if "is_pow2 n"
    using least [OF that] ge by simp
  from res pow ge least same show ?thesis by blast
qed

theorem next_pow2_smallest_witness:
  "(0::int) < 377 \<and> next_pow2 377 = Some 512 \<and> is_pow2 512 \<and> (377::int) \<le> 512
     \<and> \<not> is_pow2 377 \<and> next_pow2 256 = Some 256 \<and> is_pow2 256"
proof -
  have a: "next_pow2 377 = Some 512" and b: "next_pow2 256 = Some 256" by code_simp+
  have c: "is_pow2 512" and d: "\<not> is_pow2 377" and e: "is_pow2 256"
    by (simp_all add: is_pow2_def)
  from next_pow2_smallest [of 377] next_pow2_smallest [of 256] a b c d e
  show ?thesis by simp
qed

text \<open>
  C9. \<open>is_pow2 n\<close> is true exactly when \<open>n\<close> is positive and its binary representation
  has exactly one set bit; in particular it is false for every \<open>n \<le> 0\<close>.
\<close>

theorem is_pow2_iff_one_bit:
  "(is_pow2 n \<longleftrightarrow> 0 < n \<and> card {i. bit n i} = 1) \<and> (n \<le> 0 \<longrightarrow> \<not> is_pow2 n)"
proof -
  have pos: "0 < n" if "is_pow2 n"
    using that by (simp add: is_pow2_def)
  have one: "card {i. bit n i} = 1 \<longleftrightarrow> (\<exists>k. n = 2 ^ k)"
    by (rule one_bit_iff_power)
  have pow: "is_pow2 n \<longleftrightarrow> (\<exists>k. n = 2 ^ k)"
    by (rule is_pow2_iff_power)
  from pos one pow have "is_pow2 n \<longleftrightarrow> 0 < n \<and> card {i. bit n i} = 1"
    by blast
  moreover from pos have "n \<le> 0 \<longrightarrow> \<not> is_pow2 n"
    by fastforce
  ultimately show ?thesis ..
qed

theorem is_pow2_iff_one_bit_witness:
  "(-8::int) \<le> 0 \<and> \<not> is_pow2 (-8) \<and> (0::int) \<le> 0 \<and> \<not> is_pow2 0"
  using is_pow2_iff_one_bit [of "-8"] is_pow2_iff_one_bit [of 0] by simp

text \<open>
  C10. \<open>next_pow2\<close> returns on every integer, not only on the positive ones: for
  \<open>n \<le> 1\<close> (so for 0 and for every negative \<open>n\<close>) the guard \<open>p < n\<close> is false at the
  first test, the loop body never runs and the result is 1; for \<open>n \<ge> 2\<close> the loop
  terminates as well.
\<close>

theorem next_pow2_terminates:
  "(n \<le> 1 \<longrightarrow> \<not> 1 < n \<and> next_pow2 n = Some 1) \<and> (\<exists>r. next_pow2 n = Some r)"
proof -
  have "next_pow2 n = Some 1" if "n \<le> 1"
    using that unfolding next_pow2_def by (subst next_pow2_loop.simps) simp
  then show ?thesis using next_pow2_total [of n] by auto
qed

theorem next_pow2_terminates_witness:
  "(-5::int) \<le> 1 \<and> next_pow2 (-5) = Some 1 \<and> (0::int) \<le> 1 \<and> next_pow2 0 = Some 1"
  using next_pow2_terminates [of "-5"] next_pow2_terminates [of 0] by simp

section \<open>Paths\<close>

lemma normpath_from_canonical: "canonical cs \<Longrightarrow> normpath_from cur cs = cur @ cs"
  by (induction cs arbitrary: cur) (auto simp: canonical_def)

lemma normpath_canonical: "canonical p \<Longrightarrow> normpath p = p"
  by (simp add: normpath_def normpath_from_canonical)

lemma canonical_normpath_from: "canonical cur \<Longrightarrow> canonical (normpath_from cur cs)"
proof (induction cs arbitrary: cur)
  case Nil
  then show ?case by simp
next
  case (Cons c cs)
  have "canonical (butlast cur)" using Cons.prems by (auto simp: canonical_def dest: in_set_butlastD)
  moreover have "canonical (cur @ [c])" if "c \<noteq> ''.''" "c \<noteq> ''..''"
    using Cons.prems that by (auto simp: canonical_def)
  ultimately show ?case using Cons by simp
qed

lemma canonical_normpath: "canonical (normpath p)"
  unfolding normpath_def by (rule canonical_normpath_from) (simp add: canonical_def)

lemma normpath_idem [simp]: "normpath (normpath p) = normpath p"
  by (simp add: normpath_canonical canonical_normpath)


lemma canonical_butlast: "canonical p \<Longrightarrow> canonical (butlast p)"
  by (auto simp: canonical_def dest: in_set_butlastD)

lemma canonical_take: "canonical p \<Longrightarrow> canonical (take n p)"
  by (auto simp: canonical_def dest: in_set_takeD)

lemma length_ancestors: "d \<in> set (ancestors p) \<Longrightarrow> 0 < length d \<and> length d \<le> length p"
  by (auto simp: ancestors_def)

lemma canonical_ancestors: "canonical p \<Longrightarrow> d \<in> set (ancestors p) \<Longrightarrow> canonical d"
  by (auto simp: ancestors_def canonical_take)

lemma distinct_ancestors: "distinct (ancestors p)"
proof -
  have "map length (ancestors p) = [1..<Suc (length p)]"
    by (auto simp: ancestors_def intro: nth_equalityI)
  then have "distinct (map length (ancestors p))" by simp
  then show ?thesis by (rule distinct_map [THEN iffD1, THEN conjunct1])
qed

lemma self_ancestor: "p \<noteq> [] \<Longrightarrow> p \<in> set (ancestors p)"
proof -
  assume "p \<noteq> []"
  then have "1 \<le> length p" by (cases p) simp_all
  then have "length p \<in> set [1..<Suc (length p)]" by simp
  then have "take (length p) p \<in> set (ancestors p)"
    unfolding ancestors_def set_map by (rule imageI)
  then show ?thesis by simp
qed


lemma relpath_nonempty: "relpath p start \<noteq> []"
  by (simp add: relpath_def Let_def)


lemma backup_path_nonempty: "backup_path p b \<noteq> []"
  by (simp add: backup_path_def join_def relpath_nonempty)


section \<open>The library calls: what they change\<close>

lemma lookup_normpath [simp]: "lookup s (normpath p) = lookup s p"
  by (simp add: lookup_def)

lemma is_dir_normpath [simp]: "is_dir s (normpath p) = is_dir s p"
  by (simp add: is_dir_def)

lemma lookup_trace [simp]: "lookup (s\<lparr>trace := t\<rparr>) p = lookup s p"
  by (simp add: lookup_def)

lemma lookup_dirs [simp]: "lookup (s\<lparr>dirs := d\<rparr>) p = lookup s p"
  by (simp add: lookup_def)

lemma lookup_clock [simp]: "lookup (s\<lparr>clock := c\<rparr>) p = lookup s p"
  by (simp add: lookup_def)

lemma lookup_files [simp]:
  "lookup (s\<lparr>files := AList.update q g (files s)\<rparr>) p
     = (if normpath p = q then Some g else lookup s p)"
  by (simp add: lookup_def update_conv')

lemma is_dir_trace [simp]: "is_dir (s\<lparr>trace := t\<rparr>) p = is_dir s p"
  by (simp add: is_dir_def)

lemma is_dir_files [simp]: "is_dir (s\<lparr>files := g\<rparr>) p = is_dir s p"
  by (simp add: is_dir_def)

lemma is_dir_clock [simp]: "is_dir (s\<lparr>clock := c\<rparr>) p = is_dir s p"
  by (simp add: is_dir_def)

lemma is_dir_dirs [simp]:
  "is_dir (s\<lparr>dirs := dirs s @ ds\<rparr>) p \<longleftrightarrow> is_dir s p \<or> normpath p \<in> set ds"
  by (auto simp: is_dir_def)

lemma can_create_trace [simp]: "can_create (s\<lparr>trace := t\<rparr>) p = can_create s p"
  by (simp add: can_create_def)

lemma can_create_dirs [simp]: "can_create (s\<lparr>dirs := d\<rparr>) p = can_create s p"
  by (simp add: can_create_def)

lemma can_create_files [simp]: "can_create (s\<lparr>files := g\<rparr>) p = can_create s p"
  by (simp add: can_create_def)

lemma can_create_clock [simp]: "can_create (s\<lparr>clock := c\<rparr>) p = can_create s p"
  by (simp add: can_create_def)

lemma can_write_trace [simp]: "can_write (s\<lparr>trace := t\<rparr>) p = can_write s p"
  by (simp add: can_write_def split: option.splits)

lemma can_write_dirs [simp]: "can_write (s\<lparr>dirs := d\<rparr>) p = can_write s p"
  by (simp add: can_write_def split: option.splits)

lemma decodes_trace [simp]: "decodes (s\<lparr>trace := t\<rparr>) p f img = decodes s p f img"
  by (simp add: decodes_def)

lemma can_backup_trace [simp]: "can_backup p b (s\<lparr>trace := t\<rparr>) = can_backup p b s"
  by (simp add: can_backup_def)

lemma can_save_trace [simp]: "can_save p (s\<lparr>trace := t\<rparr>) = can_save p s"
  by (simp add: can_save_def)

lemma new_events_append [simp]: "trace s' = trace s @ es \<Longrightarrow> new_events s s' = es"
  by (simp add: new_events_def)

subsection \<open>\<^verbatim>\<open>Image.open\<close>\<close>

lemma Image_open_decodes:
  "decodes s p f img \<Longrightarrow> Image_open p s = (Inr img, s\<lparr>trace := trace s @ [Opened p]\<rparr>)"
  by (auto simp: Image_open_def decodes_def split: content.splits)


lemma Image_open_frame:
  "Image_open p s = (r, s0) \<Longrightarrow> s0 = s \<or> s0 = s\<lparr>trace := trace s @ [Opened p]\<rparr>"
  by (auto simp: Image_open_def split: option.splits content.splits if_splits)

subsection \<open>\<^verbatim>\<open>os.makedirs\<close>\<close>

lemma makedirs_each_frame:
  "makedirs_each ds s = (r, s') \<Longrightarrow>
     \<exists>ms. s' = s\<lparr>dirs := dirs s @ map normpath ms, trace := trace s @ map MadeDir ms\<rparr>
        \<and> set ms \<subseteq> set ds \<and> (\<forall>m\<in>set ms. lookup s m = None)"
proof (induction ds arbitrary: s)
  case Nil
  then have "s' = s\<lparr>dirs := dirs s @ map normpath [], trace := trace s @ map MadeDir []\<rparr>"
    by simp
  then show ?case by (intro exI [of _ "[]"]) simp
next
  case (Cons d ds)
  show ?case
  proof (cases "is_dir s d")
    case True
    with Cons.prems have "makedirs_each ds s = (r, s')" by simp
    from Cons.IH [OF this] show ?thesis by auto
  next
    case False
    show ?thesis
    proof (cases "lookup s d \<noteq> None \<or> \<not> can_create s d")
      case True
      with False Cons.prems have "s' = s" by (auto split: if_splits)
      then have "s' = s\<lparr>dirs := dirs s @ map normpath [], trace := trace s @ map MadeDir []\<rparr>"
        by simp
      then show ?thesis by (intro exI [of _ "[]"]) simp
    next
      case go: False
      let ?t = "s\<lparr>dirs := dirs s @ [normpath d], trace := trace s @ [MadeDir d]\<rparr>"
      from False go Cons.prems have "makedirs_each ds ?t = (r, s')" by simp
      from Cons.IH [OF this] obtain ms where
        s': "s' = ?t\<lparr>dirs := dirs ?t @ map normpath ms, trace := trace ?t @ map MadeDir ms\<rparr>"
        and sub: "set ms \<subseteq> set ds" and free: "\<forall>m\<in>set ms. lookup ?t m = None"
        by auto
      from s' have "s' = s\<lparr>dirs := dirs s @ map normpath (d # ms),
                           trace := trace s @ map MadeDir (d # ms)\<rparr>"
        by simp
      moreover from sub have "set (d # ms) \<subseteq> set (d # ds)" by auto
      moreover from free go have "\<forall>m\<in>set (d # ms). lookup s m = None" by simp
      ultimately show ?thesis by blast
    qed
  qed
qed

lemma makedirs_each_ok:
  assumes "distinct ds" and "\<forall>d\<in>set ds. canonical d"
    and "\<forall>d\<in>set ds. is_dir s d \<or> (lookup s d = None \<and> can_create s d)"
  shows "makedirs_each ds s =
       (Inr (), s\<lparr>dirs := dirs s @ filter (\<lambda>d. \<not> is_dir s d) ds,
                 trace := trace s @ map MadeDir (filter (\<lambda>d. \<not> is_dir s d) ds)\<rparr>)"
  using assms
proof (induction ds arbitrary: s)
  case Nil
  then show ?case by simp
next
  case (Cons d ds)
  show ?case
  proof (cases "is_dir s d")
    case True
    with Cons show ?thesis by simp
  next
    case False
    let ?t = "s\<lparr>dirs := dirs s @ [normpath d], trace := trace s @ [MadeDir d]\<rparr>"
    from Cons.prems have nd: "normpath d = d" by (simp add: normpath_canonical)
    from Cons.prems have notin: "d \<notin> set ds" by simp
    have same: "filter (\<lambda>x. \<not> is_dir s x \<and> normpath x \<noteq> d) ds = filter (\<lambda>x. \<not> is_dir s x) ds"
    proof (rule filter_cong [OF refl])
      fix x
      assume "x \<in> set ds"
      with Cons.prems notin have "normpath x = x" "x \<noteq> d"
        by (auto simp: normpath_canonical)
      then show "(\<not> is_dir s x \<and> normpath x \<noteq> d) = (\<not> is_dir s x)" by simp
    qed
    from Cons.prems have "\<forall>x\<in>set ds. is_dir ?t x \<or> (lookup ?t x = None \<and> can_create ?t x)"
      by auto
    with Cons.prems Cons.IH [of ?t] have
      "makedirs_each ds ?t =
         (Inr (), ?t\<lparr>dirs := dirs ?t @ filter (\<lambda>d. \<not> is_dir ?t d) ds,
                     trace := trace ?t @ map MadeDir (filter (\<lambda>d. \<not> is_dir ?t d) ds)\<rparr>)"
      by simp
    with False Cons.prems show ?thesis by (simp add: same nd)
  qed
qed

subsection \<open>\<^verbatim>\<open>shutil.copy2\<close> and \<^verbatim>\<open>Image.save\<close>\<close>

lemma shutil_copy2_frame:
  "lookup s src = Some f \<Longrightarrow> shutil_copy2 src dst s = (r, s') \<Longrightarrow>
     (isl r \<and> s' = s) \<or>
     (\<exists>d. r = Inr d \<and> (d = dst \<or> d = dst @ [last src]) \<and> normpath d \<noteq> normpath src
        \<and> s' = s\<lparr>files := AList.update (normpath d) f (files s),
                  trace := trace s @ [Copied src d]\<rparr>)"
  by (auto simp: shutil_copy2_def Let_def split: if_splits)

lemma Image_save_ok:
  "can_save p s \<Longrightarrow>
     Image_save img p fmt s =
       (Inr (), s\<lparr>files := AList.update (normpath p) (saved_file s p fmt img) (files s),
                 clock := Suc (clock s), trace := trace s @ [Saved p]\<rparr>)"
  by (simp add: Image_save_def can_save_def)

lemma Image_save_fails:
  "\<not> can_save p s \<Longrightarrow> \<exists>e. Image_save img p fmt s = (Inl e, s)"
  by (auto simp: Image_save_def can_save_def)

lemma Image_save_frame:
  "Image_save img p fmt s = (r, s') \<Longrightarrow>
     (isl r \<and> s' = s) \<or>
     (\<not> isl r \<and> s' = s\<lparr>files := AList.update (normpath p) (saved_file s p fmt img) (files s),
                 clock := Suc (clock s), trace := trace s @ [Saved p]\<rparr>)"
  by (auto simp: Image_save_def split: if_splits)

section \<open>The transformer, step by step\<close>

lemma resize_to_pow2_total: "\<exists>r. resize_to_pow2 p b s = Some r"
proof -
  obtain r s0 where op: "Image_open p s = (r, s0)" by (cases "Image_open p s")
  show ?thesis
  proof (cases r)
    case (Inl e)
    with op show ?thesis by (simp add: resize_to_pow2_def)
  next
    case (Inr img)
    obtain w h where sz: "img_size img = (w, h)" by (cases "img_size img")
    obtain nw nh where np: "next_pow2 w = Some nw" "next_pow2 h = Some nh"
      using next_pow2_total by blast
    from op Inr sz np show ?thesis
      unfolding resize_to_pow2_def Let_def
      by (simp split: prod.splits sum.splits)
  qed
qed

lemma resize_to_pow2_not_opened:
  "Image_open p s = (Inl e, s0) \<Longrightarrow> resize_to_pow2 p b s = Some (Inl e, s0)"
  by (simp add: resize_to_pow2_def)

lemma resize_to_pow2_pow2:
  assumes "decodes s p f img" "img_size img = (w, h)" "is_pow2 w" "is_pow2 h"
  shows "resize_to_pow2 p b s
    = Some (Inr (False, (w, h), (w, h)), s\<lparr>trace := trace s @ [Opened p]\<rparr>)"
  using assms by (simp add: resize_to_pow2_def Image_open_decodes)

lemma resize_to_pow2_npot_steps:
  assumes "decodes s p f img" "img_size img = (w, h)"
    and "\<not> (is_pow2 w \<and> is_pow2 h)" "next_pow2 w = Some nw" "next_pow2 h = Some nh"
  shows "resize_to_pow2 p b s =
    (case os_makedirs (dirname (backup_path p b)) (s\<lparr>trace := trace s @ [Opened p]\<rparr>) of
       (Inl e, s1) \<Rightarrow> Some (Inl e, s1)
     | (Inr _, s1) \<Rightarrow>
    (case shutil_copy2 p (backup_path p b) s1 of
       (Inl e, s2) \<Rightarrow> Some (Inl e, s2)
     | (Inr _, s2) \<Rightarrow> after_copy img (w, h) (nw, nh) p s2))"
proof -
  from assms(3) have npot: "(is_pow2 w \<and> is_pow2 h) = False" by simp
  from assms(1,2,4,5) show ?thesis
    unfolding resize_to_pow2_def after_copy_def Let_def
    by (simp add: Image_open_decodes npot)
qed

lemma load_image:
  "\<not> img_truncated img \<Longrightarrow>
    (if img_mode img \<noteq> RGBA then Image_convert img RGBA else Inr img)
      = Inr (if img_mode img \<noteq> RGBA
             then img\<lparr>img_mode := RGBA, img_data := Converted RGBA (img_data img)\<rparr> else img)"
  by (simp add: Image_convert_def)

lemma after_copy_truncated:
  "img_truncated img \<Longrightarrow> after_copy img orig new p s2 = Some (Inl TruncatedImageError, s2)"
  by (simp add: after_copy_def Image_convert_def Image_resize_def)

lemma resize_loaded:
  "\<not> img_truncated img \<Longrightarrow>
    (case (if img_mode img \<noteq> RGBA then Image_convert img RGBA else Inr img) of
       Inl e \<Rightarrow> Inl e | Inr img' \<Rightarrow> Image_resize img' new LANCZOS)
      = Inr (resampled img new)"
  by (cases img) (simp add: Image_convert_def Image_resize_def resampled_def)

lemma after_copy_loaded:
  assumes "\<not> img_truncated img"
  shows "after_copy img orig new p s2 =
    (case Image_save (resampled img new) p PNG s2 of
       (Inl e, s3) \<Rightarrow> Some (Inl e, s3)
     | (Inr _, s3) \<Rightarrow> Some (Inr (True, orig, new), s3))"
proof (cases "img_mode img = RGBA")
  case True
  with assms have "Image_resize img new LANCZOS = Inr (resampled img new)"
    by (cases img) (simp add: Image_resize_def resampled_def)
  with True show ?thesis by (simp add: after_copy_def)
next
  case False
  let ?c = "img\<lparr>img_mode := RGBA, img_data := Converted RGBA (img_data img)\<rparr>"
  from assms False have "Image_convert img RGBA = Inr ?c" by (simp add: Image_convert_def)
  moreover from assms False have "Image_resize ?c new LANCZOS = Inr (resampled img new)"
    by (cases img) (simp add: Image_resize_def resampled_def)
  ultimately show ?thesis using False by (simp add: after_copy_def)
qed

lemma after_copy_saved:
  "\<not> img_truncated img \<Longrightarrow> can_save p s2 \<Longrightarrow>
     after_copy img orig new p s2 =
       Some (Inr (True, orig, new),
         s2\<lparr>files := AList.update (normpath p) (saved_file s2 p PNG (resampled img new)) (files s2),
            clock := Suc (clock s2), trace := trace s2 @ [Saved p]\<rparr>)"
  by (simp add: after_copy_loaded Image_save_ok)

lemma after_copy_not_saved:
  "\<not> img_truncated img \<Longrightarrow> \<not> can_save p s2 \<Longrightarrow>
     \<exists>e. after_copy img orig new p s2 = Some (Inl e, s2)"
  using Image_save_fails [of p s2 "resampled img new" PNG]
  by (auto simp: after_copy_loaded)

lemma after_copy_cases:
  "(\<exists>e. after_copy img orig new p s2 = Some (Inl e, s2)) \<or>
   after_copy img orig new p s2 =
      Some (Inr (True, orig, new),
        s2\<lparr>files := AList.update (normpath p) (saved_file s2 p PNG (resampled img new)) (files s2),
           clock := Suc (clock s2), trace := trace s2 @ [Saved p]\<rparr>)"
proof (cases "img_truncated img")
  case True
  then show ?thesis by (simp add: after_copy_truncated)
next
  case False
  then show ?thesis
    using after_copy_saved [of img p s2 orig new] after_copy_not_saved [of img p s2 orig new]
    by blast
qed

section \<open>The run on a file that needs resizing\<close>

lemma backup_steps:
  assumes fil: "lookup s p = Some f" "file_readable f"
    and can: "can_backup p b s" and canon: "canonical (backup_path p b)"
  defines "bp \<equiv> backup_path p b"
  defines "ms \<equiv> filter (\<lambda>d. \<not> is_dir s d) (ancestors (dirname bp))"
  defines "s1 \<equiv> s\<lparr>dirs := dirs s @ ms, trace := trace s @ map MadeDir ms\<rparr>"
  shows "os_makedirs (dirname bp) s = (Inr (), s1)"
    and "shutil_copy2 p bp s1 =
           (Inr bp, s1\<lparr>files := AList.update bp f (files s1), trace := trace s1 @ [Copied p bp]\<rparr>)"
    and "bp \<notin> set ms" and "normpath p \<notin> set ms" and "normpath p \<noteq> bp"
proof -
  from can have anc: "\<forall>d\<in>set (ancestors (dirname bp)). is_dir s d \<or> (lookup s d = None \<and> can_create s d)"
    and free: "\<not> is_dir s bp" "normpath bp \<noteq> normpath p" "can_write s bp"
    by (simp_all add: can_backup_def bp_def Let_def)
  from canon have nbp: "normpath bp = bp" by (simp add: bp_def normpath_canonical)
  from canon have cd: "canonical (dirname bp)" by (simp add: bp_def dirname_def canonical_butlast)
  then have canc: "\<forall>d\<in>set (ancestors (dirname bp)). canonical d"
    by (auto dest: canonical_ancestors)
  show mk: "os_makedirs (dirname bp) s = (Inr (), s1)"
    unfolding os_makedirs_def s1_def ms_def
    by (rule makedirs_each_ok [OF distinct_ancestors canc anc])
  have bp_ne: "bp \<noteq> []" by (simp add: bp_def backup_path_nonempty)
  then have "length (dirname bp) < length bp" by (simp add: dirname_def)
  then show bp_new: "bp \<notin> set ms"
    using length_ancestors [of bp "dirname bp"] by (auto simp: ms_def)
  show p_new: "normpath p \<notin> set ms"
  proof
    assume "normpath p \<in> set ms"
    then have m: "normpath p \<in> set (ancestors (dirname bp))" "\<not> is_dir s (normpath p)"
      by (simp_all add: ms_def)
    with canc have "normpath (normpath p) = normpath p" by (simp add: normpath_canonical)
    then have "lookup s (normpath p) = lookup s p" by (simp add: lookup_def)
    with anc m fil show False by auto
  qed
  from free(2) nbp show "normpath p \<noteq> bp" by simp
  have parent: "is_dir s1 (dirname bp)"
  proof (cases "dirname bp = []")
    case True
    then show ?thesis by (simp add: is_dir_def normpath_def)
  next
    case False
    then have "dirname bp \<in> set (ancestors (dirname bp))" by (rule self_ancestor)
    moreover from cd have "normpath (dirname bp) = dirname bp" by (rule normpath_canonical)
    ultimately show ?thesis by (auto simp: s1_def ms_def)
  qed
  have nodir: "\<not> is_dir s1 bp" using free(1) bp_new nbp by (simp add: s1_def)
  have look: "lookup s1 p = Some f" using fil by (simp add: s1_def)
  have wr: "can_write s1 bp" using free(3) by (simp add: s1_def)
  show "shutil_copy2 p bp s1 =
           (Inr bp, s1\<lparr>files := AList.update bp f (files s1), trace := trace s1 @ [Copied p bp]\<rparr>)"
    using nodir look wr parent free(2) fil(2) nbp by (simp add: shutil_copy2_def)
qed

text \<open>
  With the backup possible, the run on a file that needs resizing is determined: it ends
  after the copy with an exception if the pixel data does not load or the file cannot be
  saved, and with the file overwritten otherwise.
\<close>

lemma npot_run:
  assumes dec: "decodes s p f img" and sz: "img_size img = (w, h)"
    and npot: "\<not> (is_pow2 w \<and> is_pow2 h)"
    and np: "next_pow2 w = Some nw" "next_pow2 h = Some nh"
    and can: "can_backup p b s" and canon: "canonical (backup_path p b)"
  shows "resize_to_pow2 p b s = after_copy img (w, h) (nw, nh) p (state_after_backup s p b f)"
    and "can_save p s \<Longrightarrow> can_save p (state_after_backup s p b f)"
    and "\<not> img_truncated img \<Longrightarrow> can_save p (state_after_backup s p b f) \<Longrightarrow>
           resize_to_pow2 p b s
             = Some (Inr (True, (w, h), (nw, nh)), state_after_resize s p b f img (nw, nh))"
    and "img_truncated img \<or> \<not> can_save p (state_after_backup s p b f) \<Longrightarrow>
           \<exists>e. resize_to_pow2 p b s = Some (Inl e, state_after_backup s p b f)"
proof -
  let ?s0 = "s\<lparr>trace := trace s @ [Opened p]\<rparr>"
  let ?bp = "backup_path p b"
  let ?ms = "filter (\<lambda>d. \<not> is_dir ?s0 d) (ancestors (dirname ?bp))"
  let ?s1 = "?s0\<lparr>dirs := dirs ?s0 @ ?ms, trace := trace ?s0 @ map MadeDir ?ms\<rparr>"
  let ?s2 = "?s1\<lparr>files := AList.update ?bp f (files ?s1), trace := trace ?s1 @ [Copied p ?bp]\<rparr>"
  from dec have fil: "lookup s p = Some f" "file_readable f" by (simp_all add: decodes_def)
  then have fil0: "lookup ?s0 p = Some f" by simp
  from can have can0: "can_backup p b ?s0" by simp
  note bs = backup_steps [OF fil0 fil(2) can0 canon]
  have s2: "?s2 = state_after_backup s p b f"
    by (simp add: state_after_backup_def made_dirs_def)
  show run: "resize_to_pow2 p b s = after_copy img (w, h) (nw, nh) p (state_after_backup s p b f)"
    unfolding s2 [symmetric]
    by (simp only: resize_to_pow2_npot_steps [OF dec sz npot np] bs(1) bs(2) prod.case sum.case)
  have look2: "lookup ?s2 p = Some f"
    using fil(1) bs(5) by (simp add: lookup_def update_conv')
  have "can_save p ?s2" if "can_save p s"
    using that bs(4) look2 fil(1) by (auto simp: can_save_def can_write_def)
  then show cs: "can_save p s \<Longrightarrow> can_save p (state_after_backup s p b f)"
    by (simp only: s2)
  have saved: "saved_file ?s2 p PNG (resampled img (nw, nh))
      = \<lparr>file_content = Encoded PNG (resampled img (nw, nh)), file_mtime = clock s,
         file_readable = file_readable f, file_writable = True\<rparr>"
    using look2 by (simp add: saved_file_def)
  have s3: "?s2\<lparr>files := AList.update (normpath p) (saved_file ?s2 p PNG (resampled img (nw, nh))) (files ?s2),
            clock := Suc (clock ?s2), trace := trace ?s2 @ [Saved p]\<rparr>
      = state_after_resize s p b f img (nw, nh)"
    unfolding saved by (simp add: state_after_resize_def made_dirs_def)
  show "resize_to_pow2 p b s
      = Some (Inr (True, (w, h), (nw, nh)), state_after_resize s p b f img (nw, nh))"
    if "\<not> img_truncated img" "can_save p (state_after_backup s p b f)"
    unfolding run after_copy_saved [OF that] s3 [unfolded s2] by (rule refl)
  show "\<exists>e. resize_to_pow2 p b s = Some (Inl e, state_after_backup s p b f)"
    if "img_truncated img \<or> \<not> can_save p (state_after_backup s p b f)"
  proof (cases "img_truncated img")
    case True
    then show ?thesis using run by (simp add: after_copy_truncated)
  next
    case False
    with that have "\<not> can_save p (state_after_backup s p b f)" by simp
    from after_copy_not_saved [OF False this, of "(w, h)" "(nw, nh)"] run
    show ?thesis by simp
  qed
qed

text \<open>
  Without any assumption on the environment, the run on a file that needs resizing has
  one of three shapes: it raises before the copy and no file has changed; it raises after
  the copy and the backup is the only file written; or it returns and the backup and the
  resized image are the files written.
\<close>

lemma npot_run_shape:
  assumes dec: "decodes s p f img" and sz: "img_size img = (w, h)"
    and npot: "\<not> (is_pow2 w \<and> is_pow2 h)"
    and np: "next_pow2 w = Some nw" "next_pow2 h = Some nh"
  shows "\<exists>out s' ms. resize_to_pow2 p b s = Some (out, s') \<and> dirs s' = dirs s @ map normpath ms \<and>
     ((isl out \<and> files s' = files s \<and> new_events s s' = Opened p # map MadeDir ms)
      \<or> (\<exists>dst. (dst = backup_path p b \<or> dst = backup_path p b @ [last p])
            \<and> normpath dst \<noteq> normpath p \<and> lookup s' dst = Some f \<and>
            ((isl out \<and> files s' = AList.update (normpath dst) f (files s)
                \<and> new_events s s' = Opened p # map MadeDir ms @ [Copied p dst])
             \<or> (out = Inr (True, (w, h), (nw, nh))
                 \<and> files s' = AList.update (normpath p)
                      \<lparr>file_content = Encoded PNG (resampled img (nw, nh)), file_mtime = clock s,
                       file_readable = file_readable f, file_writable = True\<rparr>
                      (AList.update (normpath dst) f (files s))
                 \<and> new_events s s' = Opened p # map MadeDir ms @ [Copied p dst, Saved p]))))"
proof -
  let ?s0 = "s\<lparr>trace := trace s @ [Opened p]\<rparr>"
  let ?bp = "backup_path p b"
  note run = resize_to_pow2_npot_steps [OF dec sz npot np, of b]
  from dec have fil: "lookup s p = Some f" by (simp add: decodes_def)
  obtain r1 s1 where mk: "os_makedirs (dirname ?bp) ?s0 = (r1, s1)"
    by (cases "os_makedirs (dirname ?bp) ?s0")
  from makedirs_each_frame [OF mk [unfolded os_makedirs_def]] obtain ms where
    s1: "s1 = ?s0\<lparr>dirs := dirs ?s0 @ map normpath ms, trace := trace ?s0 @ map MadeDir ms\<rparr>"
    by auto
  then have f1: "files s1 = files s" "dirs s1 = dirs s @ map normpath ms"
    "trace s1 = trace s @ Opened p # map MadeDir ms" "clock s1 = clock s"
    by simp_all
  show ?thesis
  proof (cases r1)
    case (Inl e)
    with run mk have "resize_to_pow2 p b s = Some (Inl e, s1)" by simp
    with f1 show ?thesis by (intro exI [of _ "Inl e"] exI [of _ s1] exI [of _ ms]) simp
  next
    case made: (Inr u)
    obtain r2 s2 where cp: "shutil_copy2 p ?bp s1 = (r2, s2)"
      by (cases "shutil_copy2 p ?bp s1")
    have look1: "lookup s1 p = Some f" using fil f1(1) by (simp add: lookup_def)
    from shutil_copy2_frame [OF look1 cp] show ?thesis
    proof
      assume "isl r2 \<and> s2 = s1"
      then obtain e where "r2 = Inl e" "s2 = s1" by (cases r2) auto
      with run mk made cp have "resize_to_pow2 p b s = Some (Inl e, s1)" by simp
      with f1 show ?thesis by (intro exI [of _ "Inl e"] exI [of _ s1] exI [of _ ms]) simp
    next
      assume "\<exists>d. r2 = Inr d \<and> (d = ?bp \<or> d = ?bp @ [last p]) \<and> normpath d \<noteq> normpath p
        \<and> s2 = s1\<lparr>files := AList.update (normpath d) f (files s1), trace := trace s1 @ [Copied p d]\<rparr>"
      then obtain dst where r2: "r2 = Inr dst" and dst: "dst = ?bp \<or> dst = ?bp @ [last p]"
        and ne: "normpath dst \<noteq> normpath p"
        and s2: "s2 = s1\<lparr>files := AList.update (normpath dst) f (files s1),
                         trace := trace s1 @ [Copied p dst]\<rparr>"
        by blast
      from run mk made cp r2
      have tail: "resize_to_pow2 p b s = after_copy img (w, h) (nw, nh) p s2" by simp
      have f2: "files s2 = AList.update (normpath dst) f (files s)" "dirs s2 = dirs s @ map normpath ms"
        "trace s2 = trace s @ Opened p # map MadeDir ms @ [Copied p dst]" "clock s2 = clock s"
        by (simp_all add: s2 f1)
      have at2: "lookup s2 dst = Some f" "lookup s2 p = Some f"
        using ne fil by (simp_all add: lookup_def f2 update_conv')
      from after_copy_cases [of img "(w, h)" "(nw, nh)" p s2] show ?thesis
      proof
        assume "\<exists>e. after_copy img (w, h) (nw, nh) p s2 = Some (Inl e, s2)"
        then obtain e where "resize_to_pow2 p b s = Some (Inl e, s2)" using tail by auto
        with f2 at2 ne dst show ?thesis
          by (intro exI [of _ "Inl e"] exI [of _ s2] exI [of _ ms]) auto
      next
        define saved where "saved = \<lparr>file_content = Encoded PNG (resampled img (nw, nh)),
            file_mtime = clock s, file_readable = file_readable f, file_writable = True\<rparr>"
        define s3 where "s3 = s2\<lparr>files := AList.update (normpath p) saved (files s2),
                      clock := Suc (clock s2), trace := trace s2 @ [Saved p]\<rparr>"
        have sv: "saved_file s2 p PNG (resampled img (nw, nh)) = saved"
          using at2(2) f2(4) by (simp add: saved_file_def saved_def)
        assume "after_copy img (w, h) (nw, nh) p s2 =
          Some (Inr (True, (w, h), (nw, nh)),
            s2\<lparr>files := AList.update (normpath p) (saved_file s2 p PNG (resampled img (nw, nh))) (files s2),
               clock := Suc (clock s2), trace := trace s2 @ [Saved p]\<rparr>)"
        with tail have res: "resize_to_pow2 p b s = Some (Inr (True, (w, h), (nw, nh)), s3)"
          by (simp add: sv s3_def)
        have f3: "files s3 = AList.update (normpath p) saved (AList.update (normpath dst) f (files s))"
          "dirs s3 = dirs s @ map normpath ms"
          "trace s3 = trace s @ Opened p # map MadeDir ms @ [Copied p dst, Saved p]"
          by (simp_all add: s3_def f2)
        have at3: "lookup s3 dst = Some f"
          using ne by (simp add: lookup_def f3 update_conv')
        from res f3 at3 ne dst show ?thesis
          unfolding saved_def
          by (intro exI [of _ "Inr (True, (w, h), (nw, nh))"] exI [of _ s3] exI [of _ ms]) auto
      qed
    qed
  qed
qed

text \<open>With the backup possible, a run on a file that needs resizing leaves the backup.\<close>

lemma npot_run_backup:
  assumes "decodes s p f img" and "img_size img = (w, h)"
    and "\<not> (is_pow2 w \<and> is_pow2 h)"
    and "can_backup p b s" and "canonical (backup_path p b)"
  shows "\<exists>out s'. resize_to_pow2 p b s = Some (out, s')
     \<and> lookup s' (backup_path p b) = Some f
     \<and> Copied p (backup_path p b) \<in> set (new_events s s')"
proof -
  obtain nw nh where np: "next_pow2 w = Some nw" "next_pow2 h = Some nh"
    using next_pow2_total by blast
  note run = npot_run [OF assms(1,2,3) np assms(4,5)]
  let ?bp = "backup_path p b"
  let ?sb = "state_after_backup s p b f"
  let ?sr = "state_after_resize s p b f img (nw, nh)"
  from assms(1) have fil: "lookup s p = Some f" "file_readable f" by (simp_all add: decodes_def)
  note bs = backup_steps [OF fil assms(4,5)]
  from assms(5) have nbp: "normpath ?bp = ?bp" by (rule normpath_canonical)
  have sb: "lookup ?sb ?bp = Some f" "Copied p ?bp \<in> set (new_events s ?sb)"
    by (auto simp: state_after_backup_def new_events_def lookup_def update_conv' nbp)
  have sr: "lookup ?sr ?bp = Some f" "Copied p ?bp \<in> set (new_events s ?sr)"
    using bs(5)
    by (auto simp: state_after_resize_def new_events_def lookup_def update_conv' nbp)
  show ?thesis
  proof (cases "img_truncated img \<or> \<not> can_save p ?sb")
    case True
    from run(4) [OF True] obtain e where "resize_to_pow2 p b s = Some (Inl e, ?sb)" ..
    with sb show ?thesis by blast
  next
    case False
    then have ok: "\<not> img_truncated img" "can_save p ?sb" by simp_all
    from run(3) [OF ok] sr show ?thesis by blast
  qed
qed

section \<open>Claims about the transformer\<close>

text \<open>
  C8, as amended. On a file that \<^verbatim>\<open>Image.open\<close> opens (readable, an image, within Pillow's
  pixel limit) and whose width and height are both powers of two, the transformer returns
  the unchanged status with the original size as both sizes, and the file system it
  leaves differs from the one it found in the trace only, by the opening of the file:
  no file, directory, timestamp or permission has changed and nothing is backed up. A
  second run, on the state the first one left, does the same again.
\<close>

theorem resize_to_pow2_idempotent_on_pow2:
  assumes "decodes s p f img" and "img_size img = (w, h)" and "is_pow2 w" and "is_pow2 h"
  shows "resize_to_pow2 p b s
           = Some (Inr (False, (w, h), (w, h)), s\<lparr>trace := trace s @ [Opened p]\<rparr>)
     \<and> resize_to_pow2 p b (s\<lparr>trace := trace s @ [Opened p]\<rparr>)
           = Some (Inr (False, (w, h), (w, h)), s\<lparr>trace := trace s @ [Opened p, Opened p]\<rparr>)"
proof -
  let ?s' = "s\<lparr>trace := trace s @ [Opened p]\<rparr>"
  have one: "resize_to_pow2 p b s = Some (Inr (False, (w, h), (w, h)), ?s')"
    using assms by (rule resize_to_pow2_pow2)
  from assms(1) have "decodes ?s' p f img" by simp
  then have "resize_to_pow2 p b ?s'
      = Some (Inr (False, (w, h), (w, h)), ?s'\<lparr>trace := trace ?s' @ [Opened p]\<rparr>)"
    using assms(2,3,4) by (rule resize_to_pow2_pow2)
  with one show ?thesis by simp
qed

theorem resize_to_pow2_idempotent_on_pow2_witness:
  "decodes ex_fs ex_b ex_b_file ex_b_img \<and> img_size ex_b_img = (256, 256) \<and> is_pow2 256
   \<and> resize_to_pow2 ex_b ex_backup ex_fs
        = Some (Inr (False, (256, 256), (256, 256)), ex_fs\<lparr>trace := [Opened ex_b]\<rparr>)
   \<and> resize_to_pow2 ex_b ex_backup (ex_fs\<lparr>trace := [Opened ex_b]\<rparr>)
        = Some (Inr (False, (256, 256), (256, 256)), ex_fs\<lparr>trace := [Opened ex_b, Opened ex_b]\<rparr>)"
proof -
  have a: "decodes ex_fs ex_b ex_b_file ex_b_img" by code_simp
  have c: "img_size ex_b_img = (256, 256)" by (simp add: ex_b_img_def)
  have d: "is_pow2 256" by (simp add: is_pow2_def)
  have t: "trace ex_fs = []" by (simp add: ex_fs_def)
  from resize_to_pow2_idempotent_on_pow2 [OF a c d d, of ex_backup] a c d t
  show ?thesis by simp
qed

text \<open>
  C8, as the claim states it, fails for a file whose sides are powers of two but which
  \<^verbatim>\<open>Image.open\<close> refuses: at 16384 by 16384 the transformer raises
  \<^verbatim>\<open>DecompressionBombError\<close> and returns no status.
\<close>

theorem pow2_file_refused_counterexample:
  "is_pow2 16384
   \<and> lookup ex_huge_fs ex_huge = Some ex_huge_file
   \<and> file_content ex_huge_file = Encoded PNG ex_huge_img
   \<and> img_size ex_huge_img = (16384, 16384)
   \<and> map_option fst (resize_to_pow2 ex_huge ex_backup ex_huge_fs)
        = Some (Inl (DecompressionBombError 268435456))"
proof -
  have "is_pow2 16384" by (simp add: is_pow2_def)
  moreover have "lookup ex_huge_fs ex_huge = Some ex_huge_file" by code_simp
  moreover have "file_content ex_huge_file = Encoded PNG ex_huge_img"
    by (simp add: ex_huge_file_def)
  moreover have "img_size ex_huge_img = (16384, 16384)" by (simp add: ex_huge_img_def)
  moreover have "map_option fst (resize_to_pow2 ex_huge ex_backup ex_huge_fs)
        = Some (Inl (DecompressionBombError 268435456))"
    by code_simp
  ultimately show ?thesis by simp
qed




text \<open>
  C3, as amended. For a file that \<^verbatim>\<open>Image.open\<close> opens as an image of size \<open>(w, h)\<close> the
  run always returns or raises, and what it has written is one of the following. If both
  sides are powers of two: nothing; the status is unchanged, no file and no directory has
  changed and the only event is the opening. Otherwise either the run raised before the
  copy, and then no file has changed and nothing was copied or saved; or the original
  file record was copied to the backup path (or into it, under the file's name, when the
  backup path is a directory), a file other than the image itself, and then either the
  run raised and this copy is the only file written, or the run returned the resized
  status and the files written are this copy and the resized image. So a backup is
  written only for a size that is not a power of two on both sides, the image is never
  overwritten without it, and a run that returns normally has written the backup exactly
  when the size is that. Where the backup can be written (\<open>can_backup\<close>, for a file
  below the parent of the backup root) and the size is not a power of two on both sides,
  the run does copy the file to the backup path, whatever happens afterwards.
\<close>

theorem backup_only_for_npot:
  assumes "decodes s p f img" and "img_size img = (w, h)"
  shows "\<exists>out s' ms. resize_to_pow2 p b s = Some (out, s') \<and> dirs s' = dirs s @ map normpath ms \<and>
     (\<not> (is_pow2 w \<and> is_pow2 h) \<and> can_backup p b s \<and> canonical (backup_path p b)
        \<longrightarrow> lookup s' (backup_path p b) = Some f
            \<and> Copied p (backup_path p b) \<in> set (new_events s s')) \<and>
     (if is_pow2 w \<and> is_pow2 h
      then out = Inr (False, (w, h), (w, h)) \<and> ms = [] \<and> files s' = files s
           \<and> new_events s s' = [Opened p]
      else (isl out \<and> files s' = files s \<and> new_events s s' = Opened p # map MadeDir ms)
        \<or> (\<exists>dst. (dst = backup_path p b \<or> dst = backup_path p b @ [last p])
              \<and> normpath dst \<noteq> normpath p \<and> lookup s' dst = Some f \<and>
              ((isl out \<and> files s' = AList.update (normpath dst) f (files s)
                  \<and> new_events s s' = Opened p # map MadeDir ms @ [Copied p dst])
               \<or> (\<exists>nw nh. next_pow2 w = Some nw \<and> next_pow2 h = Some nh
                   \<and> out = Inr (True, (w, h), (nw, nh))
                   \<and> files s' = AList.update (normpath p)
                        \<lparr>file_content = Encoded PNG (resampled img (nw, nh)), file_mtime = clock s,
                         file_readable = file_readable f, file_writable = True\<rparr>
                        (AList.update (normpath dst) f (files s))
                   \<and> new_events s s' = Opened p # map MadeDir ms @ [Copied p dst, Saved p]))))"
proof (cases "is_pow2 w \<and> is_pow2 h")
  case True
  let ?s' = "s\<lparr>trace := trace s @ [Opened p]\<rparr>"
  from True assms have "resize_to_pow2 p b s = Some (Inr (False, (w, h), (w, h)), ?s')"
    by (simp add: resize_to_pow2_pow2)
  with True show ?thesis
    by (intro exI [of _ "Inr (False, (w, h), (w, h))"] exI [of _ ?s'] exI [of _ "[]"]) simp
next
  case False
  obtain nw nh where np: "next_pow2 w = Some nw" "next_pow2 h = Some nh"
    using next_pow2_total by blast
  from npot_run_shape [OF assms False np, of b] obtain out s' ms where
    run: "resize_to_pow2 p b s = Some (out, s')" and ds: "dirs s' = dirs s @ map normpath ms" and
    shape:
    "(isl out \<and> files s' = files s \<and> new_events s s' = Opened p # map MadeDir ms)
      \<or> (\<exists>dst. (dst = backup_path p b \<or> dst = backup_path p b @ [last p])
            \<and> normpath dst \<noteq> normpath p \<and> lookup s' dst = Some f \<and>
            ((isl out \<and> files s' = AList.update (normpath dst) f (files s)
                \<and> new_events s s' = Opened p # map MadeDir ms @ [Copied p dst])
             \<or> (out = Inr (True, (w, h), (nw, nh))
                 \<and> files s' = AList.update (normpath p)
                      \<lparr>file_content = Encoded PNG (resampled img (nw, nh)), file_mtime = clock s,
                       file_readable = file_readable f, file_writable = True\<rparr>
                      (AList.update (normpath dst) f (files s))
                 \<and> new_events s s' = Opened p # map MadeDir ms @ [Copied p dst, Saved p])))"
    by blast
  have "lookup s' (backup_path p b) = Some f
      \<and> Copied p (backup_path p b) \<in> set (new_events s s')"
    if "can_backup p b s" "canonical (backup_path p b)"
    using npot_run_backup [OF assms False that] run by auto
  with run ds shape False np show ?thesis
    by (intro exI [of _ out] exI [of _ s'] exI [of _ ms]) auto
qed

theorem backup_only_for_npot_witness:
  "decodes ex_fs ex_a ex_a_file ex_a_img \<and> img_size ex_a_img = (377, 21)
   \<and> \<not> (is_pow2 377 \<and> is_pow2 21)
   \<and> resize_to_pow2 ex_a ex_backup ex_fs = Some (Inr (True, (377, 21), (512, 32)), ex_after_a)
   \<and> (\<exists>dst. (dst = backup_path ex_a ex_backup \<or> dst = backup_path ex_a ex_backup @ [last ex_a])
          \<and> normpath dst \<noteq> normpath ex_a \<and> lookup ex_after_a dst = Some ex_a_file
          \<and> [Copied ex_a dst, Saved ex_a] = drop 3 (new_events ex_fs ex_after_a))
   \<and> backup_path ex_a ex_backup = ex_a_backup
   \<and> lookup ex_after_a ex_a_backup = Some ex_a_file
   \<and> decodes ex_fs ex_b ex_b_file ex_b_img \<and> img_size ex_b_img = (256, 256) \<and> is_pow2 256
   \<and> map_option (\<lambda>(out, s'). (out, files s', dirs s', new_events ex_fs s'))
        (resize_to_pow2 ex_b ex_backup ex_fs)
       = Some (Inr (False, (256, 256), (256, 256)), files ex_fs, dirs ex_fs, [Opened ex_b])"
proof -
  have a: "decodes ex_fs ex_a ex_a_file ex_a_img" and a': "decodes ex_fs ex_b ex_b_file ex_b_img"
    by code_simp+
  have c: "img_size ex_a_img = (377, 21)" and c': "img_size ex_b_img = (256, 256)"
    by (simp_all add: ex_a_img_def ex_b_img_def)
  have d: "\<not> (is_pow2 377 \<and> is_pow2 21)" and d': "is_pow2 256" by (simp_all add: is_pow2_def)
  have r: "resize_to_pow2 ex_a ex_backup ex_fs = Some (Inr (True, (377, 21), (512, 32)), ex_after_a)"
    by code_simp
  have ev: "new_events ex_fs ex_after_a
      = [Opened ex_a, MadeDir ex_backup, MadeDir (ex_backup @ [''assets'']),
         Copied ex_a ex_a_backup, Saved ex_a]"
    by code_simp
  have bp: "backup_path ex_a ex_backup = ex_a_backup"
    and l: "lookup ex_after_a ex_a_backup = Some ex_a_file" by code_simp+
  have r': "map_option (\<lambda>(out, s'). (out, files s', dirs s', new_events ex_fs s'))
        (resize_to_pow2 ex_b ex_backup ex_fs)
       = Some (Inr (False, (256, 256), (256, 256)), files ex_fs, dirs ex_fs, [Opened ex_b])"
    by code_simp
  from backup_only_for_npot [OF a c, of ex_backup] d r obtain ms dst where
    dst: "dst = backup_path ex_a ex_backup \<or> dst = backup_path ex_a ex_backup @ [last ex_a]"
      "normpath dst \<noteq> normpath ex_a" "lookup ex_after_a dst = Some ex_a_file"
    and events: "new_events ex_fs ex_after_a
      = Opened ex_a # map MadeDir ms @ [Copied ex_a dst, Saved ex_a]"
    by auto
  from events ev have "length ms = 2" by (cases ms rule: rev_cases) (auto dest: arg_cong [of _ _ length])
  with events ev have "[Copied ex_a dst, Saved ex_a] = drop 3 (new_events ex_fs ex_after_a)"
    by simp
  with dst have "\<exists>dst. (dst = backup_path ex_a ex_backup \<or> dst = backup_path ex_a ex_backup @ [last ex_a])
          \<and> normpath dst \<noteq> normpath ex_a \<and> lookup ex_after_a dst = Some ex_a_file
          \<and> [Copied ex_a dst, Saved ex_a] = drop 3 (new_events ex_fs ex_after_a)"
    by blast
  with a a' c c' d d' r bp l r' show ?thesis by simp
qed

text \<open>
  C3, as the claim states it, fails in one direction: a file whose size is not a power of
  two gets no backup when the backup cannot be written. With the addon's folder locked,
  the run on \<^verbatim>\<open>a.png\<close> (377 by 21) raises at \<^verbatim>\<open>os.makedirs\<close>; no file and no directory has
  been written.
\<close>

theorem npot_file_without_backup_counterexample:
  "\<not> (is_pow2 377 \<and> is_pow2 21)
   \<and> decodes ex_locked ex_a ex_a_file ex_a_img
   \<and> img_size ex_a_img = (377, 21)
   \<and> map_option (\<lambda>(out, s'). (out, files s' = files ex_locked, dirs s' = dirs ex_locked, trace s'))
        (resize_to_pow2 ex_a ex_backup ex_locked)
       = Some (Inl (PermissionError ex_backup), True, True, [Opened ex_a])"
proof -
  have "\<not> (is_pow2 377 \<and> is_pow2 21)" by (simp add: is_pow2_def)
  moreover have "decodes ex_locked ex_a ex_a_file ex_a_img" by code_simp
  moreover have "img_size ex_a_img = (377, 21)" by (simp add: ex_a_img_def)
  moreover have
    "map_option (\<lambda>(out, s'). (out, files s' = files ex_locked, dirs s' = dirs ex_locked, trace s'))
        (resize_to_pow2 ex_a ex_backup ex_locked)
       = Some (Inl (PermissionError ex_backup), True, True, [Opened ex_a])"
    by code_simp
  ultimately show ?thesis by simp
qed




section \<open>The loop of the driver\<close>

lemma process_files_append:
  "process_files a b (ps @ qs) st =
     (case process_files a b ps st of None \<Rightarrow> None | Some st' \<Rightarrow> process_files a b qs st')"
proof (induction ps arbitrary: st)
  case Nil
  show ?case by simp
next
  case (Cons p ps)
  obtain sm s out where st: "st = (sm, s, out)" by (cases st)
  obtain r s' where run: "resize_to_pow2 p b s = Some (r, s')"
    using resize_to_pow2_total [of p b s] by auto
  show ?case
    unfolding st by (simp add: run Cons.IH split: sum.splits prod.splits)
qed

lemma process_files_step:
  "\<exists>sm1 s1 out1. process_files a b [p] (sm, s, out) = Some (sm1, s1, out1)
     \<and> resized_count sm1 + skipped_count sm1 + length (errors sm1)
         = Suc (resized_count sm + skipped_count sm + length (errors sm))
     \<and> (\<exists>new. errors sm1 = errors sm @ new)"
proof -
  obtain r s' where run: "resize_to_pow2 p b s = Some (r, s')"
    using resize_to_pow2_total [of p b s] by auto
  show ?thesis
    by (cases r; cases "relative_to p a") (auto simp: run record_error_def)
qed

lemma process_files_accounts:
  "\<exists>sm' s' out'. process_files a b ps (sm, s, out) = Some (sm', s', out')
     \<and> resized_count sm' + skipped_count sm' + length (errors sm')
         = resized_count sm + skipped_count sm + length (errors sm) + length ps
     \<and> (\<exists>new. errors sm' = errors sm @ new)"
proof (induction ps arbitrary: sm s out)
  case Nil
  show ?case by simp
next
  case (Cons p ps)
  from process_files_step [of a b p sm s out] obtain sm1 s1 out1 where
    one: "process_files a b [p] (sm, s, out) = Some (sm1, s1, out1)" and
    cnt: "resized_count sm1 + skipped_count sm1 + length (errors sm1)
         = Suc (resized_count sm + skipped_count sm + length (errors sm))" and
    err: "\<exists>new. errors sm1 = errors sm @ new"
    by blast
  from Cons.IH [of sm1 s1 out1] obtain sm' s' out' where
    rest: "process_files a b ps (sm1, s1, out1) = Some (sm', s', out')" and
    cnt': "resized_count sm' + skipped_count sm' + length (errors sm')
         = resized_count sm1 + skipped_count sm1 + length (errors sm1) + length ps" and
    err': "\<exists>new. errors sm' = errors sm1 @ new"
    by blast
  have "process_files a b (p # ps) (sm, s, out) = Some (sm', s', out')"
    using process_files_append [of a b "[p]" ps "(sm, s, out)"] one rest by simp
  moreover from cnt cnt' have "resized_count sm' + skipped_count sm' + length (errors sm')
         = resized_count sm + skipped_count sm + length (errors sm) + length (p # ps)"
    by simp
  moreover from err err' have "\<exists>new. errors sm' = errors sm @ new" by auto
  ultimately show ?case by blast
qed

lemma process_files_raised:
  assumes before: "process_files a b pre (sm, s, out) = Some (sm1, s1, out1)"
    and raised: "resize_to_pow2 p b s1 = Some (Inl e, s2)
       \<or> (\<exists>r. resize_to_pow2 p b s1 = Some (Inr r, s2) \<and> relative_to p a = Inl e)"
  shows "process_files a b (pre @ p # post) (sm, s, out)
       = process_files a b post
           (sm1\<lparr>errors := errors sm1 @ [(p, str_exn e)]\<rparr>, s2, out1 @ [ErrorLine p (str_exn e)])
     \<and> (\<exists>sm' s' out' more. process_files a b (pre @ p # post) (sm, s, out) = Some (sm', s', out')
           \<and> errors sm' = errors sm1 @ (p, str_exn e) # more
           \<and> resized_count sm' + skipped_count sm' + length (errors sm')
               = resized_count sm1 + skipped_count sm1 + length (errors sm1) + 1 + length post
           \<and> resized_count sm' + skipped_count sm' + length (errors sm')
               = resized_count sm + skipped_count sm + length (errors sm) + length (pre @ p # post))"
proof -
  let ?sm2 = "sm1\<lparr>errors := errors sm1 @ [(p, str_exn e)]\<rparr>"
  let ?out2 = "out1 @ [ErrorLine p (str_exn e)]"
  from raised have one: "process_files a b (p # post) (sm1, s1, out1)
      = process_files a b post (?sm2, s2, ?out2)"
    by (auto simp: record_error_def split: prod.splits)
  have run: "process_files a b (pre @ p # post) (sm, s, out) = process_files a b post (?sm2, s2, ?out2)"
    using process_files_append [of a b pre "p # post" "(sm, s, out)"] before one by simp
  from process_files_accounts [of a b post ?sm2 s2 ?out2] obtain sm' s' out' new where
    fin: "process_files a b post (?sm2, s2, ?out2) = Some (sm', s', out')" and
    cnt: "resized_count sm' + skipped_count sm' + length (errors sm')
         = resized_count ?sm2 + skipped_count ?sm2 + length (errors ?sm2) + length post" and
    err: "errors sm' = errors ?sm2 @ new"
    by blast
  from process_files_accounts [of a b pre sm s out] before have pre:
    "resized_count sm1 + skipped_count sm1 + length (errors sm1)
         = resized_count sm + skipped_count sm + length (errors sm) + length pre"
    by auto
  from run fin cnt err pre show ?thesis by simp
qed

subsection \<open>A batch in which nothing needs resizing\<close>


lemma Image_open_trace:
  "fst (Image_open p (s\<lparr>trace := t\<rparr>)) = fst (Image_open p s)"
  by (simp add: Image_open_def split: option.splits content.splits)

lemma already_pow2_trace [simp]: "already_pow2 (s\<lparr>trace := t\<rparr>) p = already_pow2 s p"
  by (simp add: already_pow2_def Image_open_trace)








lemma rglob_png_trace [simp]: "rglob_png root (s\<lparr>trace := t\<rparr>) = rglob_png root s"
  by (simp add: rglob_png_def Let_def)



section \<open>Claims about the driver\<close>

text \<open>
  C6. Whatever the loop has done on the files before \<open>p\<close>, it reaches \<open>p\<close> in some state
  \<open>(sm1, s1, out1)\<close>. If the processing of \<open>p\<close> then raises \<open>e\<close>, in the transformer
  (decoding, permissions, the backup, the overwrite) or in \<^verbatim>\<open>relative_to\<close> after it, the
  loop goes on with the files after \<open>p\<close>, and with them only, from the file system the
  failed call left, with the pair of \<open>p\<close> and \<^verbatim>\<open>str(e)\<close> appended to \<open>errors\<close>, one
  \<^verbatim>\<open>[ERROR]\<close> line printed and neither counter changed. The loop ends normally, the pair is
  still in \<open>errors\<close> at its place, and every file of the batch is counted once: as
  resized, as skipped, or by an entry of \<open>errors\<close>, whose length is the number of errors
  that the summary prints.
\<close>

theorem errors_are_caught_and_recorded:
  "\<exists>sm1 s1 out1. process_files a b pre (sm, s, out) = Some (sm1, s1, out1) \<and>
     (\<forall>e s2. resize_to_pow2 p b s1 = Some (Inl e, s2)
               \<or> (\<exists>r. resize_to_pow2 p b s1 = Some (Inr r, s2) \<and> relative_to p a = Inl e)
        \<longrightarrow> process_files a b (pre @ p # post) (sm, s, out)
              = process_files a b post
                  (sm1\<lparr>errors := errors sm1 @ [(p, str_exn e)]\<rparr>, s2,
                   out1 @ [ErrorLine p (str_exn e)])
            \<and> (\<exists>sm' s' out' more.
                  process_files a b (pre @ p # post) (sm, s, out) = Some (sm', s', out')
                \<and> errors sm' = errors sm1 @ (p, str_exn e) # more
                \<and> resized_count sm' + skipped_count sm' + length (errors sm')
                     = resized_count sm1 + skipped_count sm1 + length (errors sm1) + 1 + length post
                \<and> resized_count sm' + skipped_count sm' + length (errors sm')
                     = resized_count sm + skipped_count sm + length (errors sm)
                       + length (pre @ p # post)))"
proof -
  from process_files_accounts [of a b pre sm s out] obtain sm1 s1 out1 where
    before: "process_files a b pre (sm, s, out) = Some (sm1, s1, out1)"
    by blast
  have "process_files a b (pre @ p # post) (sm, s, out)
        = process_files a b post
            (sm1\<lparr>errors := errors sm1 @ [(p, str_exn e)]\<rparr>, s2, out1 @ [ErrorLine p (str_exn e)])
      \<and> (\<exists>sm' s' out' more.
            process_files a b (pre @ p # post) (sm, s, out) = Some (sm', s', out')
          \<and> errors sm' = errors sm1 @ (p, str_exn e) # more
          \<and> resized_count sm' + skipped_count sm' + length (errors sm')
               = resized_count sm1 + skipped_count sm1 + length (errors sm1) + 1 + length post
          \<and> resized_count sm' + skipped_count sm' + length (errors sm')
               = resized_count sm + skipped_count sm + length (errors sm)
                 + length (pre @ p # post))"
    if "resize_to_pow2 p b s1 = Some (Inl e, s2)
          \<or> (\<exists>r. resize_to_pow2 p b s1 = Some (Inr r, s2) \<and> relative_to p a = Inl e)"
    for e s2
    using before that by (rule process_files_raised)
  with before show ?thesis by blast
qed

theorem errors_are_caught_and_recorded_witness:
  "process_files ex_assets ex_backup [ex_a] (ex_init, ex_fs, [])
     = Some (ex_init\<lparr>resized_count := 1\<rparr>, ex_after_a, [ResizedLine [''a.png''] (377, 21) (512, 32)])
   \<and> resize_to_pow2 ex_c ex_backup ex_after_a
     = Some (Inl (UnidentifiedImageError ex_c), ex_after_a\<lparr>trace := trace ex_after_a @ [Opened ex_c]\<rparr>)
   \<and> process_files ex_assets ex_backup [ex_a, ex_c, ex_b] (ex_init, ex_fs, [])
     = process_files ex_assets ex_backup [ex_b]
         (ex_init\<lparr>resized_count := 1, errors := [(ex_c, str_exn (UnidentifiedImageError ex_c))]\<rparr>,
          ex_after_a\<lparr>trace := trace ex_after_a @ [Opened ex_c]\<rparr>,
          [ResizedLine [''a.png''] (377, 21) (512, 32),
           ErrorLine ex_c (str_exn (UnidentifiedImageError ex_c))])
   \<and> map_option (\<lambda>(sm, s, out). (resized_count sm, skipped_count sm, errors sm))
         (process_files ex_assets ex_backup [ex_a, ex_c, ex_b] (ex_init, ex_fs, []))
     = Some (1, 1, [(ex_c, str_exn (UnidentifiedImageError ex_c))])"
proof -
  have before: "process_files ex_assets ex_backup [ex_a] (ex_init, ex_fs, [])
    = Some (ex_init\<lparr>resized_count := 1\<rparr>, ex_after_a, [ResizedLine [''a.png''] (377, 21) (512, 32)])"
    by code_simp
  have raised: "resize_to_pow2 ex_c ex_backup ex_after_a
    = Some (Inl (UnidentifiedImageError ex_c), ex_after_a\<lparr>trace := trace ex_after_a @ [Opened ex_c]\<rparr>)"
    by code_simp
  have total: "map_option (\<lambda>(sm, s, out). (resized_count sm, skipped_count sm, errors sm))
         (process_files ex_assets ex_backup [ex_a, ex_c, ex_b] (ex_init, ex_fs, []))
     = Some (1, 1, [(ex_c, str_exn (UnidentifiedImageError ex_c))])"
    by code_simp
  have init: "errors ex_init = []" by (simp add: ex_init_def)
  from errors_are_caught_and_recorded
    [of ex_assets ex_backup "[ex_a]" ex_init ex_fs "[]" ex_c "[ex_b]"]
  obtain sm1 s1 out1 where
    b: "process_files ex_assets ex_backup [ex_a] (ex_init, ex_fs, []) = Some (sm1, s1, out1)" and
    r: "\<And>e s2. resize_to_pow2 ex_c ex_backup s1 = Some (Inl e, s2) \<Longrightarrow>
          process_files ex_assets ex_backup ([ex_a] @ ex_c # [ex_b]) (ex_init, ex_fs, [])
            = process_files ex_assets ex_backup [ex_b]
                (sm1\<lparr>errors := errors sm1 @ [(ex_c, str_exn e)]\<rparr>, s2,
                 out1 @ [ErrorLine ex_c (str_exn e)])"
    by blast
  from b before have eq: "sm1 = ex_init\<lparr>resized_count := 1\<rparr>" "s1 = ex_after_a"
    "out1 = [ResizedLine [''a.png''] (377, 21) (512, 32)]"
    by simp_all
  from r [of "UnidentifiedImageError ex_c" "ex_after_a\<lparr>trace := trace ex_after_a @ [Opened ex_c]\<rparr>"]
    raised before total init eq
  show ?thesis by simp
qed







end
